theory Spec2Isabelle
  imports Complex_Main "HOL-Library.AList" "HOL-Library.Sublist"
begin

section \<open>Journal-entry workbook analysis: a model of \<open>scripts/analyze_je.py\<close>\<close>

text \<open>
  The script reads a spreadsheet with pandas and, for every column of every sheet, computes
  a date range, a numeric summary and a Benford leading-digit analysis.

  Conventions of the model:
  \<^item> a pandas Series is its dtype together with its cells; a missing cell (NaN, NaT, None)
    is \<open>None\<close>;
  \<^item> Python and numpy floating-point numbers are idealised as real numbers (no rounding,
    no infinities); the sum of an int64 column is taken in 64-bit integers and wraps
    around, as numpy's does;
  \<^item> the functions of Python and pandas that the script calls but does not define
    (\<open>str\<close> of a float, \<open>pd.to_datetime\<close>, \<open>Timestamp.isoformat\<close>, the spreadsheet
    reader, the CSV and JSON writers) are fields of a record \<open>pylib\<close>, over which every
    theorem is universally quantified;
  \<^item> an exception is a value \<open>Inl e\<close> of a sum type;
  \<^item> the filesystem is explicit state: the set of directories and the contents of the files.
\<close>

subsection \<open>Data\<close>

text \<open>
  The exceptions of the model. \<open>OSError\<close> stands for every failure of a filesystem call,
  \<open>LibraryError\<close> for an exception raised inside pandas (a malformed workbook, a sheet that
  cannot be read, \<open>describe\<close> on a table without columns).
\<close>

datatype error = ValueError | IndexError | ZeroDivisionError | KeyError | OSError | LibraryError

text \<open>A cell of an object-dtype column: any Python object the spreadsheet reader produces.\<close>

datatype pyobj = PyStr string | PyFloat real | PyInt int | PyBool bool | PyTime int

text \<open>
  A Series. A column of a numeric dtype holds numbers and is stored as 64-bit integers, as
  floats or as booleans (\<open>False\<close> is 0, \<open>True\<close> is 1); its cells are given by their values.
  A datetime64 dtype holds timestamps (nanoseconds since the epoch), every other column has
  dtype object.
\<close>

datatype numeric_dtype = Int64 | Float64 | Bool

datatype series =
    NumericS numeric_dtype "real option list"
  | DatetimeS "int option list"
  | ObjectS "pyobj option list"

record date_info =
  di_non_null :: nat
  di_min :: "string option"
  di_max :: "string option"

record numeric_info =
  ni_non_null :: nat
  ni_mean :: real
  ni_min :: real
  ni_max :: real
  ni_sum :: real

record benford_info =
  bi_total :: nat
  bi_chi_square :: real
  bi_counts :: "(nat \<times> nat) list"
  bi_percentages :: "(nat \<times> real) list"

text \<open>A table: its number of rows and its columns, each a label (as a string) and a Series.\<close>

record dataframe =
  df_rows :: nat
  df_columns :: "(string \<times> series) list"

text \<open>The object \<open>pd.ExcelFile\<close> returns: the sheet names and the method \<open>parse\<close>.\<close>

record workbook =
  sheet_names :: "string list"
  parse :: "string \<Rightarrow> error + dataframe"

record column_row =
  cr_sheet :: string
  cr_column :: string
  cr_dtype :: string
  cr_non_null :: nat
  cr_nulls :: nat
  cr_unique :: nat

record benford_row =
  br_sheet :: string
  br_column :: string
  br_total_values :: nat
  br_chi_square :: real
  br_digit_pct :: "(string \<times> real) list"

text \<open>The dictionaries of a sheet are association lists in insertion order.\<close>

record sheet_summary =
  ss_sheet :: string
  ss_row_count :: nat
  ss_column_count :: nat
  ss_columns :: "string list"
  ss_date_ranges :: "(string \<times> date_info) list"
  ss_numeric_summaries :: "(string \<times> numeric_info) list"

record summary =
  sm_workbook :: string
  sm_sheet_count :: nat
  sm_sheets :: "sheet_summary list"

text \<open>The library functions the script calls.\<close>

record pylib =
  float_str :: "real \<Rightarrow> string"
  to_datetime :: "series \<Rightarrow> int option list"
  isoformat :: "int \<Rightarrow> string"
  dtype_str :: "series \<Rightarrow> string"
  nunique :: "series \<Rightarrow> nat"
  excel_file :: "string \<Rightarrow> error + workbook"
  describe_csv :: "dataframe \<Rightarrow> error + string"
  column_rows_csv :: "column_row list \<Rightarrow> string"
  benford_rows_csv :: "benford_row list \<Rightarrow> string"
  json_dumps :: "summary \<Rightarrow> string"
  format_2f :: "real \<Rightarrow> string"

text \<open>A path is the list of its components; the filesystem holds directories and files.\<close>

type_synonym path = "string list"

record fs =
  dirs :: "path set"
  files :: "path \<rightharpoonup> string"

record args =
  input_path :: path
  output_dir :: path

text \<open>How the process ends: exit status 0, \<open>SystemExit\<close> with a message, or an uncaught exception.\<close>

datatype outcome = Exit0 | SystemExit string | Uncaught error

subsection \<open>Series primitives\<close>

fun len :: "series \<Rightarrow> nat" where
  "len (NumericS k xs) = length xs"
| "len (DatetimeS ts) = length ts"
| "len (ObjectS os) = length os"

definition empty :: "series \<Rightarrow> bool" where
  "empty s = (len s = 0)"


fun is_datetime64_any_dtype :: "series \<Rightarrow> bool" where
  "is_datetime64_any_dtype (DatetimeS _) = True"
| "is_datetime64_any_dtype _ = False"

definition dropna :: "'a option list \<Rightarrow> 'a list" where
  "dropna xs = map the (filter (\<lambda>v. v \<noteq> None) xs)"

text \<open>\<open>s.notna().sum()\<close>\<close>

definition notna_sum :: "'a option list \<Rightarrow> nat" where
  "notna_sum xs = length (filter (\<lambda>v. v \<noteq> None) xs)"

fun series_notna_sum :: "series \<Rightarrow> nat" where
  "series_notna_sum (NumericS k xs) = notna_sum xs"
| "series_notna_sum (DatetimeS ts) = notna_sum ts"
| "series_notna_sum (ObjectS os) = notna_sum os"

text \<open>\<open>s.min()\<close> and \<open>s.max()\<close> of the non-missing values \<open>v # vs\<close>.\<close>

definition series_min :: "'a::linorder \<Rightarrow> 'a list \<Rightarrow> 'a" where
  "series_min v vs = fold min vs v"

definition series_max :: "'a::linorder \<Rightarrow> 'a list \<Rightarrow> 'a" where
  "series_max v vs = fold max vs v"

text \<open>
  Python's true division of two integers; the script divides a numpy integer by a Python
  integer, the model raises on a zero divisor as Python's own division does.
\<close>

definition truediv :: "nat \<Rightarrow> nat \<Rightarrow> error + real" where
  "truediv a b = (if b = 0 then Inl ZeroDivisionError else Inr (real a / real b))"

subsection \<open>\<open>detect_date_range\<close>\<close>

text \<open>
  \<^verbatim>\<open>
  if series.empty: return None
  if pd.api.types.is_datetime64_any_dtype(series): parsed = series
  else: parsed = pd.to_datetime(series, errors="coerce", infer_datetime_format=True)
  non_null = parsed.notna().sum()
  if non_null == 0: return None
  ratio = non_null / len(series)
  if ratio < 0.5: return None
  return {"non_null": int(non_null),
          "min": parsed.min().isoformat() if non_null else None,
          "max": parsed.max().isoformat() if non_null else None}
  \<close>
\<close>

definition parsed_of :: "pylib \<Rightarrow> series \<Rightarrow> int option list" where
  "parsed_of lib s = (case s of DatetimeS ts \<Rightarrow> ts | _ \<Rightarrow> to_datetime lib s)"

definition detect_date_range :: "pylib \<Rightarrow> series \<Rightarrow> error + date_info option" where
  "detect_date_range lib s =
     (if empty s then Inr None
      else
        let parsed = parsed_of lib s;
            non_null = notna_sum parsed
        in case dropna parsed of
             [] \<Rightarrow> Inr None
           | t # ts \<Rightarrow>
               (case truediv non_null (len s) of
                  Inl e \<Rightarrow> Inl e
                | Inr ratio \<Rightarrow>
                    if ratio < 1 / 2 then Inr None
                    else Inr (Some \<lparr>
                      di_non_null = non_null,
                      di_min = (if non_null \<noteq> 0 then Some (isoformat lib (series_min t ts)) else None),
                      di_max = (if non_null \<noteq> 0 then Some (isoformat lib (series_max t ts)) else None)
                    \<rparr>)))"

text \<open>
  What the theorems on date ranges assume of \<open>pd.to_datetime(series, errors="coerce")\<close>:
  the result has one entry for each cell of its argument, and a missing cell stays missing
  (\<open>NaT\<close>). \<open>isna\<close> is \<open>series.isna()\<close>.
\<close>

fun isna :: "series \<Rightarrow> bool list" where
  "isna (NumericS k xs) = map (\<lambda>v. v = None) xs"
| "isna (DatetimeS ts) = map (\<lambda>v. v = None) ts"
| "isna (ObjectS os) = map (\<lambda>v. v = None) os"

definition coerce_contract :: "pylib \<Rightarrow> series \<Rightarrow> bool" where
  "coerce_contract lib s \<longleftrightarrow>
     length (to_datetime lib s) = len s \<and>
     (\<forall>i < len s. isna s ! i \<longrightarrow> to_datetime lib s ! i = None)"

text \<open>The number of non-missing cells of the column that parse as a date.\<close>

definition parsed_non_null :: "pylib \<Rightarrow> series \<Rightarrow> nat" where
  "parsed_non_null lib s =
     length (filter (\<lambda>(missing, t). \<not> missing \<and> t \<noteq> None) (zip (isna s) (parsed_of lib s)))"

subsection \<open>\<open>numeric_summary\<close>\<close>

text \<open>
  \<^verbatim>\<open>
  if not pd.api.types.is_numeric_dtype(series): return None
  non_null = series.notna().sum()
  if non_null == 0: return None
  return {"non_null": int(non_null), "mean": float(series.mean()), "min": float(series.min()),
          "max": float(series.max()), "sum": float(series.sum())}
  \<close>
  The aggregations of pandas skip missing values. \<open>series.sum()\<close> adds an int64 column in
  64-bit integers, so the sum wraps around modulo \<open>2\<^sup>6\<^sup>4\<close>; a float column is added in floats
  and a bool column is counted. The mean is computed in floats for every numeric dtype.
  The cells of an int64 column are integers, so the floor below is their exact sum.
\<close>

definition wrap_int64 :: "int \<Rightarrow> int" where
  "wrap_int64 n = (n + 2 ^ 63) mod 2 ^ 64 - 2 ^ 63"

definition column_sum :: "numeric_dtype \<Rightarrow> real list \<Rightarrow> real" where
  "column_sum k vs =
     (case k of
        Int64 \<Rightarrow> real_of_int (wrap_int64 \<lfloor>sum_list vs\<rfloor>)
      | _ \<Rightarrow> sum_list vs)"

definition numeric_summary :: "series \<Rightarrow> numeric_info option" where
  "numeric_summary s =
     (case s of
        NumericS k xs \<Rightarrow>
          (case dropna xs of
             [] \<Rightarrow> None
           | v # vs \<Rightarrow> Some \<lparr>
               ni_non_null = notna_sum xs,
               ni_mean = sum_list (v # vs) / real (length (v # vs)),
               ni_min = series_min v vs,
               ni_max = series_max v vs,
               ni_sum = column_sum k (v # vs)
             \<rparr>)
      | _ \<Rightarrow> None)"

subsection \<open>Benford analysis\<close>

text \<open>\<open>{digit: math.log10(1 + 1 / digit) for digit in range(1, 10)}\<close>\<close>

definition benford_expected :: "(nat \<times> real) list" where
  "benford_expected = map (\<lambda>digit. (digit, log 10 (1 + 1 / real digit))) [1..<10]"

text \<open>\<open>s.lstrip(chars)\<close>\<close>

definition lstrip :: "string \<Rightarrow> string \<Rightarrow> string" where
  "lstrip chars s = dropWhile (\<lambda>c. c \<in> set chars) s"

text \<open>\<open>int(c)\<close> of a one-character string: a decimal digit, or ValueError.\<close>

definition int_of_char :: "char \<Rightarrow> error + nat" where
  "int_of_char c =
     (let n = (of_char c :: nat)
      in if 48 \<le> n \<and> n \<le> 57 then Inr (n - 48) else Inl ValueError)"

text \<open>\<open>int(str(value).lstrip("0.")[0])\<close>, on the string \<open>str(value)\<close>\<close>

definition first_digit :: "string \<Rightarrow> error + nat" where
  "first_digit s =
     (case lstrip ''0.'' s of
        [] \<Rightarrow> Inl IndexError
      | c # _ \<Rightarrow> int_of_char c)"

text \<open>\<open>values.apply(f)\<close>: the first exception of \<open>f\<close> ends the call.\<close>

fun apply_series :: "('a \<Rightarrow> error + 'b) \<Rightarrow> 'a list \<Rightarrow> error + 'b list" where
  "apply_series f [] = Inr []"
| "apply_series f (x # xs) =
     (case f x of
        Inl e \<Rightarrow> Inl e
      | Inr y \<Rightarrow> (case apply_series f xs of Inl e \<Rightarrow> Inl e | Inr ys \<Rightarrow> Inr (y # ys)))"

text \<open>
  \<^verbatim>\<open>
  if not pd.api.types.is_numeric_dtype(series): return pd.Series(dtype="Int64")
  values = series.dropna().astype(float).abs()
  values = values[values > 0]
  if values.empty: return pd.Series(dtype="Int64")
  digits = values.apply(lambda value: int(str(value).lstrip("0.")[0]))
  return digits
  \<close>
\<close>

definition magnitudes :: "real option list \<Rightarrow> real list" where
  "magnitudes xs = filter (\<lambda>v. v > 0) (map abs (dropna xs))"

definition leading_digit :: "pylib \<Rightarrow> series \<Rightarrow> error + nat list" where
  "leading_digit lib s =
     (case s of
        NumericS k xs \<Rightarrow>
          (let values = magnitudes xs
           in if values = [] then Inr []
              else apply_series (\<lambda>value. first_digit (float_str lib value)) values)
      | _ \<Rightarrow> Inr [])"

text \<open>
  Arithmetic of two Series that carry the same index \<open>1, \<dots>, 9\<close> in the same order: pandas
  aligns them label by label, which is position by position here.
\<close>

definition series_sub :: "(nat \<times> real) list \<Rightarrow> (nat \<times> real) list \<Rightarrow> (nat \<times> real) list" where
  "series_sub a b = map (\<lambda>((d, x), (_, y)). (d, x - y)) (zip a b)"

definition series_div :: "(nat \<times> real) list \<Rightarrow> (nat \<times> real) list \<Rightarrow> (nat \<times> real) list" where
  "series_div a b = map (\<lambda>((d, x), (_, y)). (d, x / y)) (zip a b)"

definition series_sq :: "(nat \<times> real) list \<Rightarrow> (nat \<times> real) list" where
  "series_sq a = map (\<lambda>(d, x). (d, x\<^sup>2)) a"

definition series_sum :: "(nat \<times> real) list \<Rightarrow> real" where
  "series_sum a = sum_list (map snd a)"

text \<open>\<open>digits.value_counts().reindex(range(1, 10), fill_value=0).sort_index()\<close>\<close>

definition value_counts :: "nat list \<Rightarrow> (nat \<times> nat) list" where
  "value_counts digits = map (\<lambda>d. (d, count_list digits d)) [1..<10]"

text \<open>
  \<^verbatim>\<open>
  digits = leading_digit(series)
  if digits.empty: return None
  counts = digits.value_counts().reindex(range(1, 10), fill_value=0).sort_index()
  total = counts.sum()
  expected = benford_expected()
  expected_counts = pd.Series({digit: expected[digit] * total for digit in range(1, 10)})
  chi_square = float((((counts - expected_counts) ** 2) / expected_counts).sum()
                     if total > 0 else 0)
  return {"total": int(total), "chi_square": chi_square, "counts": counts.to_dict(),
          "percentages": (counts / total).to_dict()}
  \<close>
\<close>

definition benford_of_digits :: "nat list \<Rightarrow> benford_info" where
  "benford_of_digits digits =
     (let cnts = value_counts digits;
          tot = sum_list (map snd cnts);
          expected = benford_expected;
          expected_counts = map (\<lambda>(digit, p). (digit, p * real tot)) expected;
          chi = (if tot > 0
                 then series_sum
                        (series_div
                           (series_sq (series_sub (map (\<lambda>(d, c). (d, real c)) cnts) expected_counts))
                           expected_counts)
                 else 0)
      in \<lparr> bi_total = tot,
           bi_chi_square = chi,
           bi_counts = cnts,
           bi_percentages = map (\<lambda>(d, c). (d, real c / real tot)) cnts \<rparr>)"

definition benford_summary :: "pylib \<Rightarrow> series \<Rightarrow> error + benford_info option" where
  "benford_summary lib s =
     (case leading_digit lib s of
        Inl e \<Rightarrow> Inl e
      | Inr digits \<Rightarrow> if digits = [] then Inr None else Inr (Some (benford_of_digits digits)))"

text \<open>A column qualifies for the Benford table when its analysis returns a result.\<close>

definition qualifies :: "pylib \<Rightarrow> series \<Rightarrow> bool" where
  "qualifies lib s \<longleftrightarrow> (\<exists>info. benford_summary lib s = Inr (Some info))"

subsection \<open>Strings and paths\<close>

text \<open>\<open>str(n)\<close> of a non-negative integer.\<close>

fun str_nat :: "nat \<Rightarrow> string" where
  "str_nat n =
     (if n < 10 then [''0123456789'' ! n]
      else str_nat (n div 10) @ [''0123456789'' ! (n mod 10)])"

declare str_nat.simps [simp del]

text \<open>\<open>sep.join(lines)\<close>\<close>

fun join :: "string \<Rightarrow> string list \<Rightarrow> string" where
  "join sep [] = []"
| "join sep [l] = l"
| "join sep (l # ls) = l @ sep @ join sep ls"

text \<open>\<open>str(path)\<close> and \<open>path.name\<close> of a relative POSIX path.\<close>

definition path_str :: "path \<Rightarrow> string" where
  "path_str p = (if p = [] then ''.'' else join ''/'' p)"

definition path_name :: "path \<Rightarrow> string" where
  "path_name p = (if p = [] then [] else last p)"

subsection \<open>The filesystem\<close>

text \<open>An action on the filesystem: the state after it, and a value or the exception raised.\<close>

type_synonym 'a io = "fs \<Rightarrow> (error + 'a) \<times> fs"

definition io_return :: "'a \<Rightarrow> 'a io" where
  "io_return x = (\<lambda>s. (Inr x, s))"

definition io_lift :: "error + 'a \<Rightarrow> 'a io" where
  "io_lift r = (\<lambda>s. (r, s))"

definition io_bind :: "'a io \<Rightarrow> ('a \<Rightarrow> 'b io) \<Rightarrow> 'b io" where
  "io_bind m k =
     (\<lambda>s. case m s of
             (Inl e, s') \<Rightarrow> (Inl e, s')
           | (Inr x, s') \<Rightarrow> k x s')"

text \<open>\<open>path.exists()\<close>\<close>

definition exists :: "path \<Rightarrow> fs \<Rightarrow> bool" where
  "exists p s = (p \<in> dirs s \<or> p \<in> dom (files s))"

text \<open>
  \<open>path.mkdir(parents=True, exist_ok=True)\<close>: creates the directory and its missing
  ancestors, succeeds when the directory is there already, fails when the path or an
  ancestor is a file.
\<close>

definition mkdir :: "path \<Rightarrow> unit io" where
  "mkdir p =
     (\<lambda>s. if \<exists>q \<in> set (prefixes p). q \<in> dom (files s) then (Inl OSError, s)
          else (Inr (), s\<lparr>dirs := dirs s \<union> set (prefixes p)\<rparr>))"

text \<open>
  \<open>path.write_text(content)\<close>, \<open>frame.to_csv(path)\<close>: open for writing, truncating; fails on
  a directory and when the parent is not a directory.
\<close>

definition write_text :: "path \<Rightarrow> string \<Rightarrow> unit io" where
  "write_text p content =
     (\<lambda>s. if p \<in> dirs s \<or> butlast p \<notin> dirs s then (Inl OSError, s)
          else (Inr (), s\<lparr>files := (files s)(p \<mapsto> content)\<rparr>))"

text \<open>\<open>pd.ExcelFile(path)\<close>: reads the file and hands its contents to the reader.\<close>

definition ExcelFile :: "pylib \<Rightarrow> path \<Rightarrow> workbook io" where
  "ExcelFile lib p =
     (\<lambda>s. case files s p of
             None \<Rightarrow> (Inl OSError, s)
           | Some content \<Rightarrow> (excel_file lib content, s))"

subsection \<open>\<open>build_summary\<close>: one column\<close>

text \<open>
  \<^verbatim>\<open>
  {"sheet": sheet_name, "column": str(column), "total_values": benford_info["total"],
   "chi_square": benford_info["chi_square"],
   **{f"digit_{digit}_pct": benford_info["percentages"][digit] for digit in range(1, 10)}}
  \<close>
\<close>

definition dict_get :: "('k \<times> 'v) list \<Rightarrow> 'k \<Rightarrow> error + 'v" where
  "dict_get d k = (case map_of d k of None \<Rightarrow> Inl KeyError | Some v \<Rightarrow> Inr v)"

definition benford_row_of :: "string \<Rightarrow> string \<Rightarrow> benford_info \<Rightarrow> error + benford_row" where
  "benford_row_of sheet_name column info =
     (case apply_series
             (\<lambda>digit. case dict_get (bi_percentages info) digit of
                         Inl e \<Rightarrow> Inl e
                       | Inr p \<Rightarrow> Inr (''digit_'' @ str_nat digit @ ''_pct'', p))
             [1..<10] of
        Inl e \<Rightarrow> Inl e
      | Inr pcts \<Rightarrow> Inr \<lparr>
          br_sheet = sheet_name,
          br_column = column,
          br_total_values = bi_total info,
          br_chi_square = bi_chi_square info,
          br_digit_pct = pcts
        \<rparr>)"

definition column_row_of :: "pylib \<Rightarrow> string \<Rightarrow> string \<Rightarrow> series \<Rightarrow> column_row" where
  "column_row_of lib sheet_name column s =
     \<lparr> cr_sheet = sheet_name,
       cr_column = column,
       cr_dtype = dtype_str lib s,
       cr_non_null = series_notna_sum s,
       cr_nulls = len s - series_notna_sum s,
       cr_unique = nunique lib s \<rparr>"

text \<open>
  The body of the loop over the columns of a sheet. Its state is the sheet's summary and
  the two lists of rows, which the source appends to.
  \<^verbatim>\<open>
  series = df[column]
  column_rows.append({...})
  date_info = detect_date_range(series)
  if date_info: sheet_summary["date_ranges"][str(column)] = date_info
  numeric_info = numeric_summary(series)
  if numeric_info: sheet_summary["numeric_summaries"][str(column)] = numeric_info
  benford_info = benford_summary(series)
  if benford_info: benford_rows.append({...})
  \<close>
\<close>

type_synonym loop_state = "sheet_summary \<times> column_row list \<times> benford_row list"

definition process_column ::
  "pylib \<Rightarrow> string \<Rightarrow> string \<times> series \<Rightarrow> loop_state \<Rightarrow> error + loop_state" where
  "process_column lib sheet_name col st =
     (case (col, st) of ((column, s), (sheet, column_rows, benford_rows)) \<Rightarrow>
        let column_rows1 = column_rows @ [column_row_of lib sheet_name column s]
        in case detect_date_range lib s of
             Inl e \<Rightarrow> Inl e
           | Inr date_info \<Rightarrow>
               let sheet1 = (case date_info of
                               None \<Rightarrow> sheet
                             | Some d \<Rightarrow> sheet\<lparr>ss_date_ranges :=
                                           AList.update column d (ss_date_ranges sheet)\<rparr>);
                   sheet2 = (case numeric_summary s of
                               None \<Rightarrow> sheet1
                             | Some n \<Rightarrow> sheet1\<lparr>ss_numeric_summaries :=
                                            AList.update column n (ss_numeric_summaries sheet1)\<rparr>)
               in case benford_summary lib s of
                    Inl e \<Rightarrow> Inl e
                  | Inr None \<Rightarrow> Inr (sheet2, column_rows1, benford_rows)
                  | Inr (Some info) \<Rightarrow>
                      (case benford_row_of sheet_name column info of
                         Inl e \<Rightarrow> Inl e
                       | Inr row \<Rightarrow> Inr (sheet2, column_rows1, benford_rows @ [row])))"

fun process_columns ::
  "pylib \<Rightarrow> string \<Rightarrow> (string \<times> series) list \<Rightarrow> loop_state \<Rightarrow> error + loop_state" where
  "process_columns lib sheet_name [] st = Inr st"
| "process_columns lib sheet_name (col # cols) st =
     (case process_column lib sheet_name col st of
        Inl e \<Rightarrow> Inl e
      | Inr st' \<Rightarrow> process_columns lib sheet_name cols st')"

definition new_sheet_summary :: "string \<Rightarrow> dataframe \<Rightarrow> sheet_summary" where
  "new_sheet_summary sheet_name df =
     \<lparr> ss_sheet = sheet_name,
       ss_row_count = df_rows df,
       ss_column_count = length (df_columns df),
       ss_columns = map fst (df_columns df),
       ss_date_ranges = [],
       ss_numeric_summaries = [] \<rparr>"

subsection \<open>\<open>build_summary\<close>: the sheets and the report files\<close>

text \<open>
  The loop over the sheets. Its state is \<open>summary["sheets"]\<close>, \<open>column_rows\<close> and
  \<open>benford_rows\<close>.
  \<^verbatim>\<open>
  for sheet_name in workbook.sheet_names:
      df = workbook.parse(sheet_name)
      sheet_summary = {...}
      for column in df.columns: ...
      summary["sheets"].append(sheet_summary)
      describe_path = output_dir / f"describe_{sheet_name}.csv"
      df.describe(include="all").to_csv(describe_path)
  \<close>
  A sheet name is one path component (a spreadsheet does not allow \<open>/\<close> in it).
\<close>

type_synonym sheets_state = "sheet_summary list \<times> column_row list \<times> benford_row list"

fun sheets_loop ::
  "pylib \<Rightarrow> workbook \<Rightarrow> path \<Rightarrow> string list \<Rightarrow> sheets_state \<Rightarrow> sheets_state io" where
  "sheets_loop lib wb out [] st = io_return st"
| "sheets_loop lib wb out (sheet_name # rest) st =
     (case st of (sheets, column_rows, benford_rows) \<Rightarrow>
        io_bind (io_lift (parse wb sheet_name)) (\<lambda>df.
        io_bind (io_lift (process_columns lib sheet_name (df_columns df)
                            (new_sheet_summary sheet_name df, column_rows, benford_rows)))
          (\<lambda>(sheet, column_rows', benford_rows').
        io_bind (io_lift (describe_csv lib df)) (\<lambda>csv.
        io_bind (write_text (out @ [''describe_'' @ sheet_name @ ''.csv'']) csv) (\<lambda>_.
        sheets_loop lib wb out rest (sheets @ [sheet], column_rows', benford_rows'))))))"

text \<open>The lines of \<open>summary.md\<close>. The arrow is the byte sequence the source file holds.\<close>

definition arrow :: string where
  "arrow = [CHR 0xC3, CHR 0xA2, CHR 0xE2, CHR 0x80, CHR 0xA0, CHR 0xE2, CHR 0x80, CHR 0x99]"

definition str_opt :: "string option \<Rightarrow> string" where
  "str_opt v = (case v of None \<Rightarrow> ''None'' | Some t \<Rightarrow> t)"

definition date_range_line :: "string \<times> date_info \<Rightarrow> string" where
  "date_range_line ci =
     (case ci of (col, info) \<Rightarrow>
        ''  - '' @ col @ '': '' @ str_opt (di_min info) @ '' '' @ arrow @ '' '' @ str_opt (di_max info)
        @ '' (non-null '' @ str_nat (di_non_null info) @ '')'')"

definition numeric_summary_line :: "pylib \<Rightarrow> string \<times> numeric_info \<Rightarrow> string" where
  "numeric_summary_line lib ci =
     (case ci of (col, info) \<Rightarrow>
        ''  - '' @ col @ '': mean '' @ format_2f lib (ni_mean info)
        @ '', min '' @ format_2f lib (ni_min info)
        @ '', max '' @ format_2f lib (ni_max info)
        @ '', sum '' @ format_2f lib (ni_sum info))"

definition sheet_md_lines :: "pylib \<Rightarrow> sheet_summary \<Rightarrow> string list" where
  "sheet_md_lines lib sheet =
     [''## Sheet: '' @ ss_sheet sheet,
      ''- Rows: **'' @ str_nat (ss_row_count sheet) @ ''**'',
      ''- Columns: **'' @ str_nat (ss_column_count sheet) @ ''**'']
     @ (if ss_date_ranges sheet \<noteq> []
        then ''- Date ranges:'' # map date_range_line (ss_date_ranges sheet) else [])
     @ (if ss_numeric_summaries sheet \<noteq> []
        then ''- Numeric summaries:'' # map (numeric_summary_line lib) (ss_numeric_summaries sheet)
        else [])
     @ [[]]"

definition md_lines :: "pylib \<Rightarrow> string \<Rightarrow> summary \<Rightarrow> benford_row list \<Rightarrow> string list" where
  "md_lines lib name summ benford_rows =
     [''# Journal Entry Summary for `'' @ name @ ''`'',
      [],
      ''Total sheets: **'' @ str_nat (sm_sheet_count summ) @ ''**'',
      []]
     @ concat (map (sheet_md_lines lib) (sm_sheets summ))
     @ (if benford_rows \<noteq> []
        then [''## Benford'' @ [CHR 0x27] @ ''s Law Results'',
              [],
              ''Benford analysis is computed on numeric columns using leading digits.'',
              ''See `benford_summary.csv` for per-column distributions and chi-square scores.'',
              []]
        else [])"

definition index_lines :: "string list" where
  "index_lines =
     [''# Output Files'',
      [],
      ''This folder is generated by the journal entry analysis workflow.'',
      [],
      ''- `summary.json`: machine-readable summary'',
      ''- `summary.md`: human-readable summary'',
      ''- `column_stats.csv`: per-column statistics'',
      ''- `describe_<sheet>.csv`: pandas describe output per sheet'',
      ''- `benford_summary.csv`: Benford'' @ [CHR 0x27] @ ''s Law leading digit distribution per column'']"

text \<open>
  \<^verbatim>\<open>
  output_dir.mkdir(parents=True, exist_ok=True)
  workbook = pd.ExcelFile(excel_path)
  summary = {"workbook": excel_path.name, "sheet_count": len(workbook.sheet_names), "sheets": []}
  column_rows = []; benford_rows = []
  for sheet_name in workbook.sheet_names: ...
  (output_dir / "column_stats.csv").write_text(pd.DataFrame(column_rows).to_csv(index=False))
  (output_dir / "summary.json").write_text(json.dumps(summary, indent=2))
  if benford_rows: pd.DataFrame(benford_rows).to_csv(output_dir / "benford_summary.csv", index=False)
  md_lines = ...
  (output_dir / "summary.md").write_text("\n".join(md_lines))
  (output_dir / "index.md").write_text("\n".join(index_lines))
  \<close>
\<close>

definition write_reports ::
  "pylib \<Rightarrow> path \<Rightarrow> path \<Rightarrow> workbook \<Rightarrow> sheets_state \<Rightarrow> unit io" where
  "write_reports lib excel_path out wb st =
     (case st of (sheets, column_rows, benford_rows) \<Rightarrow>
        let summ = \<lparr> sm_workbook = path_name excel_path,
                     sm_sheet_count = length (sheet_names wb),
                     sm_sheets = sheets \<rparr>
        in
        io_bind (write_text (out @ [''column_stats.csv'']) (column_rows_csv lib column_rows)) (\<lambda>_.
        io_bind (write_text (out @ [''summary.json'']) (json_dumps lib summ)) (\<lambda>_.
        io_bind (if benford_rows \<noteq> []
                 then write_text (out @ [''benford_summary.csv''])
                        (benford_rows_csv lib benford_rows)
                 else io_return ()) (\<lambda>_.
        io_bind (write_text (out @ [''summary.md''])
                   (join [CHR 0x0A] (md_lines lib (path_name excel_path) summ benford_rows))) (\<lambda>_.
        write_text (out @ [''index.md'']) (join [CHR 0x0A] index_lines))))))"

definition build_summary :: "pylib \<Rightarrow> path \<Rightarrow> path \<Rightarrow> unit io" where
  "build_summary lib excel_path out =
     io_bind (mkdir out) (\<lambda>_.
     io_bind (ExcelFile lib excel_path) (\<lambda>wb.
     io_bind (sheets_loop lib wb out (sheet_names wb) ([], [], [])) (\<lambda>st.
     write_reports lib excel_path out wb st)))"

subsection \<open>\<open>main\<close>\<close>

text \<open>The two optional flags and their defaults.\<close>

definition parse_args :: "path option \<Rightarrow> path option \<Rightarrow> args" where
  "parse_args inp outp =
     \<lparr> input_path = (case inp of None \<Rightarrow> [''je_samples (1).xlsx''] | Some p \<Rightarrow> p),
       output_dir = (case outp of None \<Rightarrow> [''outputs''] | Some p \<Rightarrow> p) \<rparr>"

text \<open>
  \<^verbatim>\<open>
  if not args.input.exists():
      raise SystemExit(f"Input file not found: {args.input}")
  build_summary(args.input, args.output)
  \<close>
\<close>

definition main :: "pylib \<Rightarrow> args \<Rightarrow> fs \<Rightarrow> outcome \<times> fs" where
  "main lib a s =
     (if \<not> exists (input_path a) s
      then (SystemExit (''Input file not found: '' @ path_str (input_path a)), s)
      else case build_summary lib (input_path a) (output_dir a) s of
             (Inl e, s') \<Rightarrow> (Uncaught e, s')
           | (Inr _, s') \<Rightarrow> (Exit0, s'))"

text \<open>
  The exit status of the process: 0 on a normal return; 1 when \<open>SystemExit\<close> carries a
  message (which Python prints) and when an exception is not caught.
\<close>

fun exit_status :: "outcome \<Rightarrow> nat" where
  "exit_status Exit0 = 0"
| "exit_status (SystemExit msg) = 1"
| "exit_status (Uncaught e) = 1"

fun message :: "outcome \<Rightarrow> string option" where
  "message (SystemExit msg) = Some msg"
| "message _ = None"

subsection \<open>What an action writes\<close>

text \<open>
  An action writes the files \<open>W\<close> deterministically when there are a value and a map of
  contents, defined at least on \<open>W\<close>, such that every successful run of the action returns
  that value and leaves the files as they were, overridden by that map: neither depends on
  the filesystem the action started in.
\<close>

definition det_writes :: "'a io \<Rightarrow> path set \<Rightarrow> bool" where
  "det_writes m W \<longleftrightarrow>
     (\<exists>x outs. W \<subseteq> dom outs \<and>
        (\<forall>s s' r. m s = (Inr r, s') \<longrightarrow> r = x \<and> files s' = files s ++ outs))"

subsection \<open>A small workbook and simple library functions, for running the model\<close>

text \<open>
  Stand-ins for the library, used to evaluate the model on concrete inputs: numbers are
  printed like Python prints whole non-negative floats, a cell parses as a date when it is
  a timestamp already, a number is read as nanoseconds since the epoch (as pandas does),
  and the writers produce fixed strings.
\<close>

definition fixture_to_datetime :: "series \<Rightarrow> int option list" where
  "fixture_to_datetime s =
     (case s of
        NumericS _ xs \<Rightarrow> map (map_option floor) xs
      | DatetimeS ts \<Rightarrow> ts
      | ObjectS os \<Rightarrow> map (\<lambda>c. case c of Some (PyTime t) \<Rightarrow> Some t | _ \<Rightarrow> None) os)"

definition fixture_workbook :: workbook where
  "fixture_workbook =
     \<lparr> sheet_names = [''JE''],
       parse = (\<lambda>name.
         if name = ''JE''
         then Inr \<lparr> df_rows = 4,
                    df_columns =
                      [(''date'', ObjectS [Some (PyTime 86400), Some (PyStr ''n/a''), Some (PyTime 172800), None]),
                       (''amount'', NumericS Float64 [Some 100, Some (- 250), Some 0, None]),
                       (''flag'', NumericS Float64 [Some 0, None, Some 0, Some 0])] \<rparr>
         else Inl LibraryError) \<rparr>"

definition fixture_lib :: pylib where
  "fixture_lib =
     \<lparr> float_str = (\<lambda>x. str_nat (nat \<lfloor>x\<rfloor>) @ ''.0''),
       to_datetime = fixture_to_datetime,
       isoformat = (\<lambda>t. str_nat (nat t)),
       dtype_str = (\<lambda>s. case s of NumericS Int64 _ \<Rightarrow> ''int64''
                            | NumericS Float64 _ \<Rightarrow> ''float64''
                            | NumericS Bool _ \<Rightarrow> ''bool''
                            | DatetimeS _ \<Rightarrow> ''datetime64[ns]''
                            | ObjectS _ \<Rightarrow> ''object''),
       nunique = (\<lambda>s. case s of NumericS _ xs \<Rightarrow> length (remdups (dropna xs))
                          | DatetimeS ts \<Rightarrow> length (remdups (dropna ts))
                          | ObjectS os \<Rightarrow> length (remdups (dropna os))),
       excel_file = (\<lambda>content. if content = ''JE'' then Inr fixture_workbook else Inl LibraryError),
       describe_csv = (\<lambda>df. if df_columns df = [] then Inl LibraryError else Inr ''describe''),
       column_rows_csv = (\<lambda>rows. ''column_rows:'' @ str_nat (length rows)),
       benford_rows_csv = (\<lambda>rows. ''benford_rows:'' @ str_nat (length rows)),
       json_dumps = (\<lambda>summ. ''summary:'' @ sm_workbook summ),
       format_2f = (\<lambda>x. str_nat (nat \<lfloor>x\<rfloor>) @ ''.00'') \<rparr>"

definition fixture_args :: args where
  "fixture_args = \<lparr> input_path = [''je.xlsx''], output_dir = [''outputs''] \<rparr>"

definition fixture_fs :: fs where
  "fixture_fs = \<lparr> dirs = {[]}, files = [[''je.xlsx''] \<mapsto> ''JE''] \<rparr>"

text \<open>
  The same workbook under the same file name in another directory, next to the reports of
  an earlier run.
\<close>

definition fixture_rerun_args :: args where
  "fixture_rerun_args = \<lparr> input_path = [''inbox'', ''je.xlsx''], output_dir = [''outputs''] \<rparr>"

definition fixture_rerun_fs :: fs where
  "fixture_rerun_fs =
     \<lparr> dirs = {[], [''inbox''], [''outputs'']},
       files = [[''inbox'', ''je.xlsx''] \<mapsto> ''JE'',
                [''outputs'', ''summary.md''] \<mapsto> ''stale'',
                [''outputs'', ''old.txt''] \<mapsto> ''kept''] \<rparr>"

text \<open>A copy of the workbook under another file name, beside the original.\<close>

definition fixture_copy_args :: args where
  "fixture_copy_args = \<lparr> input_path = [''copy.xlsx''], output_dir = [''outputs''] \<rparr>"

definition fixture_copy_fs :: fs where
  "fixture_copy_fs =
     \<lparr> dirs = {[]}, files = [[''je.xlsx''] \<mapsto> ''JE'', [''copy.xlsx''] \<mapsto> ''JE''] \<rparr>"

section \<open>Properties\<close>

subsection \<open>Evaluation rules\<close>

lemma str_nat_numeral: "str_nat (numeral k) =
     (if (numeral k :: nat) < 10 then [''0123456789'' ! numeral k]
      else str_nat (numeral k div 10) @ [''0123456789'' ! (numeral k mod 10)])"
  by (rule str_nat.simps)

lemma str_nat_small: "str_nat 0 = ''0''" "str_nat 1 = ''1''" "str_nat (Suc 0) = ''1''"
  by (simp_all add: str_nat.simps)

lemmas fixture_eval = fixture_lib_def fixture_to_datetime_def fixture_workbook_def fixture_args_def
  fixture_fs_def fixture_rerun_args_def fixture_rerun_fs_def fixture_copy_args_def
  fixture_copy_fs_def str_nat_numeral str_nat_small

subsection \<open>Missing values and aggregates\<close>

lemma dropna_Nil [simp]: "dropna [] = []"
  by (simp add: dropna_def)

lemma dropna_Cons [simp]: "dropna (x # xs) = (case x of None \<Rightarrow> dropna xs | Some v \<Rightarrow> v # dropna xs)"
  by (simp add: dropna_def split: option.splits)

lemma notna_sum_dropna: "notna_sum xs = length (dropna xs)"
  by (simp add: notna_sum_def dropna_def)

lemma notna_sum_le: "notna_sum xs \<le> length xs"
  by (simp add: notna_sum_def)

lemma series_notna_sum_le: "series_notna_sum s \<le> len s"
  by (cases s) (simp_all add: notna_sum_le)

lemma series_min_Min: "series_min v vs = Min (set (v # vs))"
  unfolding series_min_def by (rule Min.set_eq_fold [symmetric])

lemma series_max_Max: "series_max v vs = Max (set (v # vs))"
  unfolding series_max_def by (rule Max.set_eq_fold [symmetric])

subsection \<open>Numeric summaries\<close>



text \<open>
  A float column, and an int64 column whose exact sum is a 64-bit integer, have their exact
  sum reported.
\<close>

lemma column_sum_exact:
  assumes "k = Int64 \<longrightarrow> (\<exists>n. sum_list vs = real_of_int n \<and> - (2 ^ 63) \<le> n \<and> n < 2 ^ 63)"
  shows "column_sum k vs = sum_list vs"
proof (cases k)
  case Int64
  with assms obtain n where n: "sum_list vs = real_of_int n" "- (2 ^ 63) \<le> n" "n < 2 ^ 63"
    by blast
  have "wrap_int64 n = n"
    using n(2,3) by (simp add: wrap_int64_def)
  with n(1) Int64 show ?thesis
    by (simp add: column_sum_def)
qed (simp_all add: column_sum_def)

lemma numeric_summary_float_example:
  "numeric_summary (NumericS Float64 [Some 100, Some (- 250), Some 0, None])
   = Some \<lparr>ni_non_null = 3, ni_mean = - 50, ni_min = - 250, ni_max = 100, ni_sum = - 150\<rparr>"
  by (simp add: numeric_summary_def notna_sum_def series_min_def series_max_def column_sum_def)

subsection \<open>Date ranges\<close>

lemma detect_date_range_unfold:
  "detect_date_range lib s =
     (if len s = 0 \<or> dropna (parsed_of lib s) = [] \<or> 2 * notna_sum (parsed_of lib s) < len s
      then Inr None
      else Inr (Some \<lparr>
             di_non_null = notna_sum (parsed_of lib s),
             di_min = Some (isoformat lib (Min (set (dropna (parsed_of lib s))))),
             di_max = Some (isoformat lib (Max (set (dropna (parsed_of lib s))))) \<rparr>))"
proof (cases "len s = 0 \<or> dropna (parsed_of lib s) = []")
  case True
  then show ?thesis
    by (auto simp: detect_date_range_def empty_def Let_def)
next
  case False
  then obtain t ts where d: "dropna (parsed_of lib s) = t # ts" and l: "len s > 0"
    by (cases "dropna (parsed_of lib s)") auto
  have n: "notna_sum (parsed_of lib s) \<noteq> 0"
    using d by (simp add: notna_sum_dropna)
  have r: "real (notna_sum (parsed_of lib s)) / real (len s) < 1 / 2
           \<longleftrightarrow> 2 * notna_sum (parsed_of lib s) < len s"
    using l by (simp add: field_simps) linarith
  show ?thesis
    using False l n r d
    by (simp add: detect_date_range_def empty_def Let_def truediv_def series_min_Min series_max_Max)
qed

lemma coerce_contract_length:
  "coerce_contract lib s \<Longrightarrow> length (parsed_of lib s) = len s"
  by (cases s) (simp_all add: coerce_contract_def parsed_of_def)

lemma fixture_date_contract:
  "coerce_contract fixture_lib
     (ObjectS [Some (PyTime 86400), Some (PyStr ''n/a''), Some (PyTime 172800), None])"
  by (simp add: coerce_contract_def fixture_eval numeral_eq_Suc All_less_Suc)

lemma fixture_date_range:
  "detect_date_range fixture_lib
     (ObjectS [Some (PyTime 86400), Some (PyStr ''n/a''), Some (PyTime 172800), None])
   = Inr (Some \<lparr>di_non_null = 2, di_min = Some ''86400'', di_max = Some ''172800''\<rparr>)"
  by (simp add: detect_date_range_def empty_def parsed_of_def notna_sum_def truediv_def
        series_min_def series_max_def fixture_eval)

text \<open>
  Claim C2. Date-range detection never raises, and it emits a range exactly when at least
  one value parses as a date and the parsed values are at least half of all the values of
  the column (the denominator is the length of the column, missing values included). The
  range holds the count of parsed values and the ISO strings of their minimum and maximum.
\<close>

theorem detect_date_range_emitted_iff:
  assumes "coerce_contract lib s"
  shows "\<exists>r. detect_date_range lib s = Inr r
     \<and> (r \<noteq> None \<longleftrightarrow> 1 \<le> notna_sum (parsed_of lib s)
                      \<and> 1 / 2 \<le> real (notna_sum (parsed_of lib s)) / real (len s))
     \<and> (\<forall>info. r = Some info \<longrightarrow>
           di_non_null info = notna_sum (parsed_of lib s)
           \<and> di_min info = Some (isoformat lib (Min (set (dropna (parsed_of lib s)))))
           \<and> di_max info = Some (isoformat lib (Max (set (dropna (parsed_of lib s))))))"
proof -
  let ?n = "notna_sum (parsed_of lib s)"
  have le: "?n \<le> len s"
    using coerce_contract_length [OF assms] notna_sum_le [of "parsed_of lib s"] by simp
  have half: "1 / 2 \<le> real ?n / real (len s) \<longleftrightarrow> len s \<le> 2 * ?n" if "len s > 0"
    using that by (simp add: field_simps) linarith
  have empty: "dropna (parsed_of lib s) = [] \<longleftrightarrow> ?n = 0"
    by (simp add: notna_sum_dropna)
  show ?thesis
  proof (cases "len s = 0")
    case True
    with le show ?thesis by (simp add: detect_date_range_unfold)
  next
    case False
    with half empty show ?thesis
      by (auto simp: detect_date_range_unfold)
  qed
qed

theorem detect_date_range_emitted_iff_witness:
  "coerce_contract fixture_lib
     (ObjectS [Some (PyTime 86400), Some (PyStr ''n/a''), Some (PyTime 172800), None])
   \<and> detect_date_range fixture_lib
        (ObjectS [Some (PyTime 86400), Some (PyStr ''n/a''), Some (PyTime 172800), None])
       = Inr (Some \<lparr>di_non_null = 2, di_min = Some ''86400'', di_max = Some ''172800''\<rparr>)
   \<and> notna_sum (parsed_of fixture_lib
        (ObjectS [Some (PyTime 86400), Some (PyStr ''n/a''), Some (PyTime 172800), None])) = 2"
  using detect_date_range_emitted_iff [OF fixture_date_contract]
  by (simp add: fixture_date_contract fixture_date_range)

text \<open>The test of the specification: three of ten values parse, no date range is emitted.\<close>

lemma three_of_ten:
  "detect_date_range fixture_lib
     (ObjectS [Some (PyTime 1), Some (PyTime 2), Some (PyTime 3), Some (PyStr ''a''),
               Some (PyStr ''b''), Some (PyStr ''c''), Some (PyStr ''d''), Some (PyStr ''e''),
               Some (PyStr ''f''), Some (PyStr ''g'')]) = Inr None"
  by (simp add: detect_date_range_def empty_def parsed_of_def notna_sum_def truediv_def
        series_min_def series_max_def fixture_eval)

text \<open>
  Claim C10. On a column with no rows date-range detection returns nothing; the division of
  the parsed count by the column length never has a zero divisor, so the function never
  raises ZeroDivisionError (nor, in this model, any other exception).
\<close>

theorem detect_date_range_no_zero_division:
  "(empty s \<longrightarrow> detect_date_range lib s = Inr None)
   \<and> detect_date_range lib s \<noteq> Inl ZeroDivisionError
   \<and> (\<forall>e. detect_date_range lib s \<noteq> Inl e)"
  by (simp add: detect_date_range_unfold empty_def)

theorem detect_date_range_no_zero_division_witness:
  "empty (NumericS Float64 []) \<and> detect_date_range fixture_lib (NumericS Float64 []) = Inr None"
  using detect_date_range_no_zero_division [of "NumericS Float64 []" fixture_lib]
  by (simp add: empty_def)

lemma parsed_non_null_eq:
  assumes "coerce_contract lib s"
  shows "parsed_non_null lib s = notna_sum (parsed_of lib s)"
proof -
  have gen: "length ms = length ps \<Longrightarrow> (\<forall>i < length ms. ms ! i \<longrightarrow> ps ! i = None)
        \<Longrightarrow> length (filter (\<lambda>(missing, t). \<not> missing \<and> t \<noteq> None) (zip ms ps))
            = length (filter (\<lambda>v. v \<noteq> None) ps)" for ms :: "bool list" and ps :: "int option list"
  proof (induction ms ps rule: list_induct2)
    case Nil
    then show ?case by simp
  next
    case (Cons m ms p ps)
    have "\<forall>i < length ms. ms ! i \<longrightarrow> ps ! i = None"
      using Cons.prems by auto
    moreover have "m \<longrightarrow> p = None"
      using Cons.prems by auto
    ultimately show ?case
      using Cons.IH by auto
  qed
  show ?thesis
  proof (cases s)
    case (DatetimeS ts)
    have "length (filter (\<lambda>(missing, t). \<not> missing \<and> t \<noteq> None) (zip (map (\<lambda>v. v = None) ts) ts))
          = length (filter (\<lambda>v. v \<noteq> None) ts)"
      by (rule gen) simp_all
    with DatetimeS show ?thesis
      by (simp add: parsed_non_null_def parsed_of_def notna_sum_def)
  next
    case (NumericS k xs)
    with assms gen [of "isna s" "to_datetime lib s"] show ?thesis
      by (simp add: parsed_non_null_def parsed_of_def notna_sum_def coerce_contract_def)
  next
    case (ObjectS os)
    with assms gen [of "isna s" "to_datetime lib s"] show ?thesis
      by (simp add: parsed_non_null_def parsed_of_def notna_sum_def coerce_contract_def)
  qed
qed

lemma series_notna_sum_isna: "series_notna_sum s = length (filter Not (isna s))"
  by (cases s) (simp_all add: notna_sum_def filter_map comp_def)

lemma parsed_non_null_le: "parsed_non_null lib s \<le> series_notna_sum s"
proof -
  have "length (filter (\<lambda>(missing, t). \<not> missing \<and> t \<noteq> None) (zip ms ps))
        \<le> length (filter Not ms)" for ms :: "bool list" and ps :: "int option list"
  proof (induction ms arbitrary: ps)
    case Nil
    then show ?case by simp
  next
    case (Cons m ms)
    show ?case
    proof (cases ps)
      case Nil
      then show ?thesis by simp
    next
      case (Cons p ps')
      with Cons.IH [of ps'] show ?thesis by auto
    qed
  qed
  then show ?thesis
    by (simp add: parsed_non_null_def series_notna_sum_isna)
qed

text \<open>
  Claim C6. If a date range is present for a column, then the column is datetime-typed or at
  least half of its non-missing values parse as dates (ratio over the non-missing count).
\<close>

theorem date_range_present_only_if:
  assumes "coerce_contract lib s"
    and "detect_date_range lib s = Inr (Some info)"
  shows "is_datetime64_any_dtype s
         \<or> 1 / 2 \<le> real (parsed_non_null lib s) / real (series_notna_sum s)"
proof -
  let ?n = "parsed_non_null lib s"
  have n: "?n = notna_sum (parsed_of lib s)"
    by (rule parsed_non_null_eq [OF assms(1)])
  from assms(2) have a: "len s \<le> 2 * ?n" and b: "?n \<noteq> 0"
    by (auto simp: n detect_date_range_unfold notna_sum_dropna split: if_splits)
  have c: "series_notna_sum s \<le> 2 * ?n"
    using a series_notna_sum_le [of s] by linarith
  have d: "series_notna_sum s > 0"
    using b parsed_non_null_le [of lib s] by linarith
  have "1 / 2 \<le> real ?n / real (series_notna_sum s)"
    using c d by (simp add: field_simps)
  then show ?thesis ..
qed

theorem date_range_present_only_if_witness:
  "coerce_contract fixture_lib
     (ObjectS [Some (PyTime 86400), Some (PyStr ''n/a''), Some (PyTime 172800), None])
   \<and> \<not> is_datetime64_any_dtype
        (ObjectS [Some (PyTime 86400), Some (PyStr ''n/a''), Some (PyTime 172800), None])
   \<and> parsed_non_null fixture_lib
        (ObjectS [Some (PyTime 86400), Some (PyStr ''n/a''), Some (PyTime 172800), None]) = 2
   \<and> series_notna_sum
        (ObjectS [Some (PyTime 86400), Some (PyStr ''n/a''), Some (PyTime 172800), None]) = 3
   \<and> (1::real) / 2 \<le> real 2 / real 3"
proof -
  have "parsed_non_null fixture_lib
        (ObjectS [Some (PyTime 86400), Some (PyStr ''n/a''), Some (PyTime 172800), None]) = 2"
    and "series_notna_sum
        (ObjectS [Some (PyTime 86400), Some (PyStr ''n/a''), Some (PyTime 172800), None]) = 3"
    by (simp_all add: parsed_non_null_def parsed_of_def notna_sum_def fixture_eval)
  with date_range_present_only_if [OF fixture_date_contract fixture_date_range]
    fixture_date_contract
  show ?thesis
    by simp
qed

subsection \<open>Leading digits\<close>

lemma dropna_map_uminus: "dropna (map (map_option uminus) xs) = map uminus (dropna xs)"
  by (induction xs) (simp_all split: option.splits)

lemma magnitudes_negate: "magnitudes (map (map_option uminus) xs) = magnitudes xs"
  by (simp add: magnitudes_def dropna_map_uminus comp_def)

lemma magnitudes_drop_zero:
  "magnitudes (filter (\<lambda>v. v \<noteq> None \<and> v \<noteq> Some 0) xs) = magnitudes xs"
  by (induction xs) (auto simp: magnitudes_def split: option.splits)

lemma length_magnitudes:
  "length (magnitudes xs) = length (filter (\<lambda>v. v \<noteq> None \<and> v \<noteq> Some 0) xs)"
  by (induction xs) (auto simp: magnitudes_def split: option.splits)

lemma int_of_char_range: "int_of_char c = Inr d \<Longrightarrow> d \<le> 9"
  by (auto simp: int_of_char_def Let_def split: if_splits)

lemma int_of_char_zero: "int_of_char c = Inr 0 \<Longrightarrow> c = CHR ''0''"
proof -
  assume "int_of_char c = Inr 0"
  then have "(of_char c :: nat) = 48"
    by (auto simp: int_of_char_def Let_def split: if_splits)
  then have "(of_char c :: nat) = of_char CHR ''0''"
    by simp
  then show "c = CHR ''0''"
    by (simp only: of_char_eq_iff)
qed

lemma first_digit_range:
  assumes "first_digit str = Inr d"
  shows "1 \<le> d \<and> d \<le> 9"
proof -
  from assms obtain c cs where l: "lstrip ''0.'' str = c # cs" and c: "int_of_char c = Inr d"
    by (auto simp: first_digit_def split: list.splits)
  have "c \<notin> set ''0.''"
    using l hd_dropWhile [of "\<lambda>c. c \<in> set ''0.''" str] by (auto simp: lstrip_def)
  then have "c \<noteq> CHR ''0''"
    by simp
  with c int_of_char_zero [of c] have "d \<noteq> 0"
    by (cases "d = 0") auto
  with int_of_char_range [OF c] show ?thesis
    by simp
qed

lemma apply_series_all:
  "apply_series f xs = Inr ys \<Longrightarrow> (\<And>x y. f x = Inr y \<Longrightarrow> P y) \<Longrightarrow> \<forall>y \<in> set ys. P y"
  by (induction xs arbitrary: ys) (auto split: sum.splits)

lemma apply_series_length:
  "apply_series f xs = Inr ys \<Longrightarrow> length ys = length xs"
  by (induction xs arbitrary: ys) (auto split: sum.splits)

lemma leading_digit_range:
  assumes "leading_digit lib s = Inr digits"
  shows "set digits \<subseteq> {1..<10}"
proof (cases s)
  case (NumericS k xs)
  show ?thesis
  proof (cases "magnitudes xs = []")
    case True
    with assms NumericS show ?thesis
      by (simp add: leading_digit_def)
  next
    case False
    with assms NumericS
    have "apply_series (\<lambda>value. first_digit (float_str lib value)) (magnitudes xs) = Inr digits"
      by (simp add: leading_digit_def)
    from apply_series_all [OF this, of "\<lambda>d. 1 \<le> d \<and> d \<le> 9"] first_digit_range
    show ?thesis
      by fastforce
  qed
qed (use assms in \<open>simp_all add: leading_digit_def\<close>)

lemma leading_digit_length:
  assumes "leading_digit lib (NumericS k xs) = Inr digits"
  shows "length digits = length (filter (\<lambda>v. v \<noteq> None \<and> v \<noteq> Some 0) xs)"
proof (cases "magnitudes xs = []")
  case True
  with assms length_magnitudes [of xs] show ?thesis
    by (simp add: leading_digit_def)
next
  case False
  with assms apply_series_length [of _ "magnitudes xs" digits] length_magnitudes [of xs]
  show ?thesis
    by (simp add: leading_digit_def)
qed

text \<open>
  Claim C5. The leading digits of a numeric column, and with them the per-digit tallies and
  the whole Benford result, do not change when every value is negated; missing values and
  zeros do not take part (removing them from the column changes nothing, and there is one
  tallied digit for each value that is neither missing nor zero); the columns
  \<open>[-100, -200]\<close> and \<open>[100, 200]\<close> have the same leading digits.
\<close>

theorem leading_digit_sign_invariant:
  "leading_digit lib (NumericS k (map (map_option uminus) xs)) = leading_digit lib (NumericS k xs)
   \<and> benford_summary lib (NumericS k (map (map_option uminus) xs)) = benford_summary lib (NumericS k xs)
   \<and> leading_digit lib (NumericS k (filter (\<lambda>v. v \<noteq> None \<and> v \<noteq> Some 0) xs))
       = leading_digit lib (NumericS k xs)
   \<and> (\<forall>digits. leading_digit lib (NumericS k xs) = Inr digits \<longrightarrow>
          length digits = length (filter (\<lambda>v. v \<noteq> None \<and> v \<noteq> Some 0) xs))
   \<and> leading_digit lib (NumericS k [Some (- 100), Some (- 200)])
       = leading_digit lib (NumericS k [Some 100, Some 200])"
proof -
  have neg: "leading_digit lib (NumericS k (map (map_option uminus) ys)) = leading_digit lib (NumericS k ys)"
    for ys
    by (simp add: leading_digit_def magnitudes_negate)
  have zero: "leading_digit lib (NumericS k (filter (\<lambda>v. v \<noteq> None \<and> v \<noteq> Some 0) xs))
              = leading_digit lib (NumericS k xs)"
    by (simp only: leading_digit_def series.case magnitudes_drop_zero)
  have tally: "\<forall>digits. leading_digit lib (NumericS k xs) = Inr digits \<longrightarrow>
          length digits = length (filter (\<lambda>v. v \<noteq> None \<and> v \<noteq> Some 0) xs)"
    using leading_digit_length by blast
  have summary: "benford_summary lib (NumericS k (map (map_option uminus) xs))
                 = benford_summary lib (NumericS k xs)"
    by (simp add: benford_summary_def neg)
  have example: "leading_digit lib (NumericS k [Some (- 100), Some (- 200)])
                 = leading_digit lib (NumericS k [Some 100, Some 200])"
    using neg [of "[Some 100, Some 200]"] by simp
  from neg [of xs] summary zero tally example show ?thesis
    by (intro conjI)
qed

theorem leading_digit_sign_invariant_witness:
  "leading_digit fixture_lib (NumericS Float64 [Some (- 100), None, Some 0, Some (- 250)]) = Inr [1, 2]"
proof -
  have "leading_digit fixture_lib (NumericS Float64 [Some 100, None, Some 0, Some 250]) = Inr [1, 2]"
    by (simp add: leading_digit_def magnitudes_def first_digit_def lstrip_def int_of_char_def
          fixture_eval)
  then show ?thesis
    using leading_digit_sign_invariant
      [where lib = fixture_lib and k = Float64 and xs = "[Some 100, None, Some 0, Some 250]"]
    by simp
qed

subsection \<open>The Benford result\<close>

lemma total_of_digits:
  assumes "set digits \<subseteq> {1..<10}"
  shows "sum_list (map snd (value_counts digits)) = length digits"
proof -
  have "sum_list (map snd (value_counts digits)) = sum_list (map (count_list digits) [1..<10])"
    by (simp add: value_counts_def comp_def)
  also have "\<dots> = sum (count_list digits) {1..<10}"
    by (simp add: interv_sum_list_conv_sum_set_nat)
  also have "\<dots> = length digits"
    using assms by (intro sum_count_set) simp_all
  finally show ?thesis .
qed

lemma benford_total: "set digits \<subseteq> {1..<10} \<Longrightarrow> bi_total (benford_of_digits digits) = length digits"
  by (simp add: benford_of_digits_def Let_def total_of_digits)

lemma benford_counts:
  "bi_counts (benford_of_digits digits) = map (\<lambda>d. (d, count_list digits d)) [1..<10]"
  by (simp add: benford_of_digits_def Let_def value_counts_def)

lemma benford_percentages:
  "bi_percentages (benford_of_digits digits)
   = map (\<lambda>d. (d, real (count_list digits d) / real (bi_total (benford_of_digits digits)))) [1..<10]"
  by (simp add: benford_of_digits_def Let_def value_counts_def comp_def)

lemma benford_chi_square:
  assumes "bi_total (benford_of_digits digits) > 0"
  shows "bi_chi_square (benford_of_digits digits)
   = (\<Sum>d = 1..9. (real (count_list digits d)
                      - log 10 (1 + 1 / real d) * real (bi_total (benford_of_digits digits)))\<^sup>2
                    / (log 10 (1 + 1 / real d) * real (bi_total (benford_of_digits digits))))"
proof -
  let ?t = "bi_total (benford_of_digits digits)"
  let ?summand = "\<lambda>d. (real (count_list digits d) - log 10 (1 + 1 / real d) * real ?t)\<^sup>2
                    / (log 10 (1 + 1 / real d) * real ?t)"
  have t: "?t = sum_list (map snd (value_counts digits))"
    by (simp add: benford_of_digits_def Let_def)
  have "bi_chi_square (benford_of_digits digits) = sum_list (map ?summand [1..<10])"
    using assms unfolding t
    by (simp add: benford_of_digits_def Let_def value_counts_def benford_expected_def
          series_sum_def series_div_def series_sq_def series_sub_def
          zip_map_map zip_same_conv_map comp_def del: upt_Suc)
  also have "\<dots> = sum ?summand {1..<10}"
    by (simp add: interv_sum_list_conv_sum_set_nat)
  also have "{1..<10::nat} = {1..9}"
    by auto
  finally show ?thesis .
qed

lemma upt_1_10:
  "[1..<10] = [1, 2, 3, 4, 5, 6, 7, 8, 9::nat]"
  "[Suc 0..<10] = [1, 2, 3, 4, 5, 6, 7, 8, 9::nat]"
  by (simp_all add: upt_rec)

lemma map_of_graph:
  "map_of (map (\<lambda>d. (d, f d)) ds) d = (if d \<in> set ds then Some (f d) else None)"
  by (induction ds) auto

lemma benford_summary_Some:
  assumes "leading_digit lib s = Inr digits" and "benford_summary lib s = Inr (Some r)"
  shows "r = benford_of_digits digits" and "digits \<noteq> []" and "bi_total r = length digits"
proof -
  from assms show "digits \<noteq> []" and r: "r = benford_of_digits digits"
    by (auto simp: benford_summary_def split: if_splits)
  show "bi_total r = length digits"
    unfolding r by (rule benford_total [OF leading_digit_range [OF assms(1)]])
qed

lemma fixture_digits:
  "leading_digit fixture_lib (NumericS Float64 [Some 100, Some (- 250), Some 0, None]) = Inr [1, 2]"
  by (simp add: leading_digit_def magnitudes_def first_digit_def lstrip_def int_of_char_def
        fixture_eval)

lemma fixture_benford:
  "benford_summary fixture_lib (NumericS Float64 [Some 100, Some (- 250), Some 0, None])
   = Inr (Some (benford_of_digits [1, 2]))"
  by (simp add: benford_summary_def fixture_digits)

text \<open>
  Claim C1. For an emitted Benford result the total is the number of tallied digits, the
  observed count of each digit 1..9 is its number of occurrences, and the chi-square
  statistic is the sum over the digits \<open>d = 1..9\<close> of
  \<open>(observed d - expected d)\<^sup>2 / expected d\<close> with \<open>expected d = log10 (1 + 1/d) * total\<close>.
  In particular the statistic is 0 when every observed count equals its expected count.
\<close>

theorem chi_square_formula:
  assumes "leading_digit lib s = Inr digits"
    and "benford_summary lib s = Inr (Some r)"
  shows "bi_total r = length digits
    \<and> (\<forall>d \<in> {1..9}. map_of (bi_counts r) d = Some (count_list digits d))
    \<and> bi_chi_square r =
        (\<Sum>d = 1..9. (real (count_list digits d) - log 10 (1 + 1 / real d) * real (bi_total r))\<^sup>2
                       / (log 10 (1 + 1 / real d) * real (bi_total r)))
    \<and> ((\<forall>d \<in> {1..9}. real (count_list digits d) = log 10 (1 + 1 / real d) * real (bi_total r))
         \<longrightarrow> bi_chi_square r = 0)"
proof -
  note r = benford_summary_Some(1) [OF assms]
    and ne = benford_summary_Some(2) [OF assms]
    and t = benford_summary_Some(3) [OF assms]
  have pos: "bi_total (benford_of_digits digits) > 0"
    using r t ne by simp
  have chi: "bi_chi_square r =
        (\<Sum>d = 1..9. (real (count_list digits d) - log 10 (1 + 1 / real d) * real (bi_total r))\<^sup>2
                       / (log 10 (1 + 1 / real d) * real (bi_total r)))"
    unfolding r by (rule benford_chi_square [OF pos])
  have cnt: "\<forall>d \<in> {1..9}. map_of (bi_counts r) d = Some (count_list digits d)"
    unfolding r benford_counts map_of_graph by auto
  have zero: "bi_chi_square r = 0"
    if "\<forall>d \<in> {1..9}. real (count_list digits d) = log 10 (1 + 1 / real d) * real (bi_total r)"
    unfolding chi using that by (intro sum.neutral) simp
  from t cnt chi zero show ?thesis
    by blast
qed

theorem chi_square_formula_witness:
  "leading_digit fixture_lib (NumericS Float64 [Some 100, Some (- 250), Some 0, None]) = Inr [1, 2]
   \<and> benford_summary fixture_lib (NumericS Float64 [Some 100, Some (- 250), Some 0, None])
       = Inr (Some (benford_of_digits [1, 2]))
   \<and> bi_total (benford_of_digits [1, 2]) = 2
   \<and> bi_chi_square (benford_of_digits [1, 2]) =
        (\<Sum>d = 1..9. (real (count_list [1, 2] d) - log 10 (1 + 1 / real d) * 2)\<^sup>2
                       / (log 10 (1 + 1 / real d) * 2))"
  using chi_square_formula [OF fixture_digits fixture_benford]
  by (simp add: fixture_digits fixture_benford)

text \<open>
  In exact arithmetic the premise of the last part holds for the empty tally only, for which
  no result is emitted: \<open>log10 2\<close> is irrational, so \<open>count 1 = log10 2 * total\<close> has no
  solution in natural numbers with \<open>total > 0\<close>. A floating-point test can only observe a
  statistic close to 0.
\<close>

lemma no_exact_log10_2:
  assumes "real c = log 10 2 * real n" and "n > 0"
  shows False
proof -
  have "(10::real) powr (real c) = 10 powr (log 10 2 * real n)"
    by (simp only: assms(1))
  also have "\<dots> = (10 powr log 10 2) powr (real n)"
    by (simp only: powr_powr)
  also have "\<dots> = 2 powr (real n)"
    by simp
  finally have "(10::real) ^ c = 2 ^ n"
    by (simp add: powr_realpow)
  then have "real (10 ^ c) = real (2 ^ n)"
    by simp
  then have eq: "(10::nat) ^ c = 2 ^ n"
    by (simp only: of_nat_eq_iff)
  have "c > 0"
  proof (rule ccontr)
    assume "\<not> c > 0"
    with eq have "(2::nat) ^ n = 1" by simp
    with assms(2) show False by simp
  qed
  then have "(10::nat) dvd 10 ^ c"
    by (simp add: dvd_power)
  moreover have "(5::nat) dvd 10"
    by simp
  ultimately have "(5::nat) dvd 10 ^ c"
    by (rule dvd_trans [rotated])
  with eq have "(5::nat) dvd 2 ^ n"
    by simp
  moreover have "coprime (5::nat) 2"
    by (simp add: coprime_iff_gcd_eq_1 gcd_non_0_nat)
  then have "coprime (5::nat) (2 ^ n)"
    by simp
  ultimately have "is_unit (5::nat)"
    by (metis coprime_common_divisor dvd_refl)
  then show False
    by simp
qed

lemma exact_benford_tally_is_empty:
  assumes "\<forall>d \<in> {1..9}. real (count_list digits d) = log 10 (1 + 1 / real d) * real (length digits)"
  shows "digits = []"
proof (rule ccontr)
  assume "digits \<noteq> []"
  then have "length digits > 0" by simp
  moreover from assms have "real (count_list digits 1) = log 10 2 * real (length digits)"
    by simp
  ultimately show False
    using no_exact_log10_2 by blast
qed

text \<open>
  The reported per-digit value is not the percentage \<open>100 * count / total\<close>: for the tally
  of the digits 1 and 2 the value reported for digit 1 is \<open>1/2\<close>, not 50.
\<close>

theorem percentage_times_100_counterexample:
  "benford_summary fixture_lib (NumericS Float64 [Some 100, Some (- 250), Some 0, None])
     = Inr (Some (benford_of_digits [1, 2]))
   \<and> map_of (bi_percentages (benford_of_digits [1, 2])) 1 = Some (1 / 2)
   \<and> map_of (bi_percentages (benford_of_digits [1, 2])) 1
       \<noteq> Some (100 * real (count_list [1, 2] (1::nat)) / real (bi_total (benford_of_digits [1, 2])))"
  by (simp add: fixture_benford benford_percentages benford_total upt_1_10)

lemma benford_row_of_eval:
  "benford_row_of sheet_name column info =
     (if \<forall>d \<in> set [1..<10]. map_of (bi_percentages info) d \<noteq> None
      then Inr \<lparr> br_sheet = sheet_name, br_column = column, br_total_values = bi_total info,
                 br_chi_square = bi_chi_square info,
                 br_digit_pct = map (\<lambda>d. (''digit_'' @ str_nat d @ ''_pct'',
                                          the (map_of (bi_percentages info) d))) [1..<10] \<rparr>
      else Inl KeyError)"
proof -
  let ?f = "\<lambda>digit. case dict_get (bi_percentages info) digit of
                         Inl e \<Rightarrow> Inl e
                       | Inr p \<Rightarrow> Inr (''digit_'' @ str_nat digit @ ''_pct'', p)"
  have "apply_series ?f ds =
          (if \<forall>d \<in> set ds. map_of (bi_percentages info) d \<noteq> None
           then Inr (map (\<lambda>d. (''digit_'' @ str_nat d @ ''_pct'',
                                 the (map_of (bi_percentages info) d))) ds)
           else Inl KeyError)" for ds
    by (induction ds) (auto simp: dict_get_def split: option.splits)
  then show ?thesis
    by (simp add: benford_row_of_def del: upt_Suc)
qed

text \<open>
  Claim C3, amended. For an emitted Benford result and every digit \<open>d\<close> in 1..9, the value
  reported under \<open>percentages\<close>, and in the column \<open>digit_d_pct\<close> of the Benford table, is the
  fraction \<open>count d / total\<close> of the tallied values whose leading digit is \<open>d\<close>, a number
  between 0 and 1 that is not multiplied by 100.
\<close>

theorem percentages_are_fractions:
  assumes "leading_digit lib s = Inr digits"
    and "benford_summary lib s = Inr (Some r)"
  shows "bi_total r = length digits
    \<and> (\<forall>d \<in> {1..9}. map_of (bi_percentages r) d
                        = Some (real (count_list digits d) / real (bi_total r)))
    \<and> (\<exists>row. benford_row_of sheet_name column r = Inr row
           \<and> br_digit_pct row
               = map (\<lambda>d. (''digit_'' @ str_nat d @ ''_pct'',
                            real (count_list digits d) / real (bi_total r))) [1..<10])"
proof -
  note r = benford_summary_Some(1) [OF assms]
    and t = benford_summary_Some(3) [OF assms]
  have m: "map_of (bi_percentages r) d = Some (real (count_list digits d) / real (bi_total r))"
    if "d \<in> set [1..<10]" for d
    using that unfolding r benford_percentages map_of_graph by simp
  have row: "\<exists>row. benford_row_of sheet_name column r = Inr row
           \<and> br_digit_pct row
               = map (\<lambda>d. (''digit_'' @ str_nat d @ ''_pct'',
                            real (count_list digits d) / real (bi_total r))) [1..<10]"
    using m by (simp add: benford_row_of_eval del: upt_Suc cong: map_cong)
  have "\<forall>d \<in> {1..9}. map_of (bi_percentages r) d
                        = Some (real (count_list digits d) / real (bi_total r))"
    using m by auto
  with t row show ?thesis
    by blast
qed

theorem percentages_are_fractions_witness:
  "leading_digit fixture_lib (NumericS Float64 [Some 100, Some (- 250), Some 0, None]) = Inr [1, 2]
   \<and> benford_summary fixture_lib (NumericS Float64 [Some 100, Some (- 250), Some 0, None])
       = Inr (Some (benford_of_digits [1, 2]))
   \<and> map_of (bi_percentages (benford_of_digits [1, 2])) 2 = Some (1 / 2)
   \<and> map_of (bi_percentages (benford_of_digits [1, 2])) 3 = Some 0"
  using percentages_are_fractions [OF fixture_digits fixture_benford, of "''JE''" "''amount''"]
  by (simp add: fixture_digits fixture_benford)

subsection \<open>Columns of zeros\<close>

lemma magnitudes_all_zero:
  assumes "\<forall>v \<in> set (dropna xs). v = 0"
  shows "magnitudes xs = []"
  using assms by (simp add: magnitudes_def filter_empty_conv)

lemma detect_date_range_Inr: "\<exists>r. detect_date_range lib s = Inr r"
  by (simp add: detect_date_range_unfold)

text \<open>
  Claim C9. For a numeric column that has a non-missing value and whose non-missing values
  are all zero, a numeric summary is emitted, no Benford result is emitted, and processing
  the column adds its numeric summary to the sheet and leaves the Benford rows as they were.
\<close>

theorem all_zero_column_no_benford:
  assumes "dropna xs \<noteq> []"
    and "\<forall>v \<in> set (dropna xs). v = 0"
  shows "numeric_summary (NumericS k xs) \<noteq> None
    \<and> benford_summary lib (NumericS k xs) = Inr None
    \<and> (\<exists>sheet'. process_column lib sheet_name (column, NumericS k xs) (sheet, column_rows, benford_rows)
                   = Inr (sheet', column_rows @ [column_row_of lib sheet_name column (NumericS k xs)],
                          benford_rows)
           \<and> map_of (ss_numeric_summaries sheet') column = numeric_summary (NumericS k xs))"
proof -
  obtain n where n: "numeric_summary (NumericS k xs) = Some n"
    using assms(1) by (cases "dropna xs") (simp_all add: numeric_summary_def)
  have b: "benford_summary lib (NumericS k xs) = Inr None"
    by (simp add: benford_summary_def leading_digit_def magnitudes_all_zero [OF assms(2)])
  obtain d where d: "detect_date_range lib (NumericS k xs) = Inr d"
    using detect_date_range_Inr by blast
  have "\<exists>sheet'. process_column lib sheet_name (column, NumericS k xs) (sheet, column_rows, benford_rows)
                   = Inr (sheet', column_rows @ [column_row_of lib sheet_name column (NumericS k xs)],
                          benford_rows)
           \<and> map_of (ss_numeric_summaries sheet') column = Some n"
    by (simp add: process_column_def Let_def n b d update_conv' split: option.splits)
  with n b show ?thesis
    by simp
qed

theorem all_zero_column_no_benford_witness:
  "dropna [Some 0, None, Some 0, Some (0::real)] \<noteq> []
   \<and> numeric_summary (NumericS Float64 [Some 0, None, Some 0, Some 0])
       = Some \<lparr>ni_non_null = 3, ni_mean = 0, ni_min = 0, ni_max = 0, ni_sum = 0\<rparr>
   \<and> benford_summary fixture_lib (NumericS Float64 [Some 0, None, Some 0, Some 0]) = Inr None"
  using all_zero_column_no_benford
    [where xs = "[Some 0, None, Some 0, Some 0]" and k = Float64 and lib = fixture_lib]
  by (simp add: numeric_summary_def notna_sum_def series_min_def series_max_def column_sum_def)

subsection \<open>Running the pipeline\<close>

lemma io_bind_Inr:
  "io_bind m k s = (Inr y, s') \<longleftrightarrow> (\<exists>x s1. m s = (Inr x, s1) \<and> k x s1 = (Inr y, s'))"
  by (auto simp: io_bind_def split: prod.splits sum.splits)

lemma io_lift_Inr: "io_lift r s = (Inr x, s') \<longleftrightarrow> r = Inr x \<and> s' = s"
  by (auto simp: io_lift_def)

lemma io_return_Inr: "io_return x s = (Inr y, s') \<longleftrightarrow> y = x \<and> s' = s"
  by (auto simp: io_return_def)

lemma write_text_Inr:
  "write_text p c s = (Inr u, s') \<longleftrightarrow>
     p \<notin> dirs s \<and> butlast p \<in> dirs s \<and> s' = s\<lparr>files := (files s)(p \<mapsto> c)\<rparr>"
  by (auto simp: write_text_def)

lemma mkdir_Inr:
  "mkdir p s = (Inr u, s') \<longleftrightarrow>
     (\<forall>q \<in> set (prefixes p). q \<notin> dom (files s)) \<and> s' = s\<lparr>dirs := dirs s \<union> set (prefixes p)\<rparr>"
  by (auto simp: mkdir_def)

lemma ExcelFile_Inr:
  "ExcelFile lib p s = (Inr wb, s') \<longleftrightarrow>
     (\<exists>content. files s p = Some content \<and> excel_file lib content = Inr wb) \<and> s' = s"
  by (auto simp: ExcelFile_def split: option.splits)

lemmas io_Inr = io_bind_Inr io_lift_Inr io_return_Inr write_text_Inr mkdir_Inr ExcelFile_Inr

lemma process_column_rows:
  assumes "process_column lib sheet_name (column, s) (sheet, crs, brs) = Inr (sheet', crs', brs')"
  shows "(brs \<noteq> [] \<or> qualifies lib s) \<longrightarrow> brs' \<noteq> []"
  using assms
  by (auto simp: process_column_def Let_def qualifies_def split: sum.splits option.splits)

lemma process_columns_rows:
  assumes "process_columns lib sheet_name cols (sheet, crs, brs) = Inr (sheet', crs', brs')"
  shows "(brs \<noteq> [] \<or> (\<exists>col \<in> set cols. qualifies lib (snd col))) \<longrightarrow> brs' \<noteq> []"
  using assms
proof (induction cols arbitrary: sheet crs brs)
  case Nil
  then show ?case by simp
next
  case (Cons col cols)
  obtain column s where col: "col = (column, s)"
    by (cases col)
  from Cons.prems obtain sheet1 crs1 brs1
    where one: "process_column lib sheet_name (column, s) (sheet, crs, brs) = Inr (sheet1, crs1, brs1)"
      and rest: "process_columns lib sheet_name cols (sheet1, crs1, brs1) = Inr (sheet', crs', brs')"
    by (auto simp: col split: sum.splits)
  from process_column_rows [OF one] Cons.IH [OF rest] show ?case
    by (auto simp: col)
qed

lemma sheets_loop_files:
  assumes "sheets_loop lib wb out names (sheets, crs, brs) s = (Inr (sheets', crs', brs'), s')"
  shows "dirs s' = dirs s
    \<and> dom (files s) \<subseteq> dom (files s')
    \<and> (\<forall>n \<in> set names. out @ [''describe_'' @ n @ ''.csv''] \<in> dom (files s'))
    \<and> ((brs \<noteq> [] \<or> (\<exists>n \<in> set names. \<exists>df. parse wb n = Inr df
                          \<and> (\<exists>col \<in> set (df_columns df). qualifies lib (snd col))))
         \<longrightarrow> brs' \<noteq> [])"
  using assms
proof (induction names arbitrary: sheets crs brs s)
  case Nil
  then show ?case
    by (simp add: io_Inr)
next
  case (Cons n names)
  from Cons.prems obtain df sheet crs1 brs1 csv
    where df: "parse wb n = Inr df"
      and cols: "process_columns lib n (df_columns df) (new_sheet_summary n df, crs, brs)
                 = Inr (sheet, crs1, brs1)"
      and csv: "describe_csv lib df = Inr csv"
      and wr: "out @ [''describe_'' @ n @ ''.csv''] \<notin> dirs s"
      and rest: "sheets_loop lib wb out names (sheets @ [sheet], crs1, brs1)
                   (s\<lparr>files := (files s)(out @ [''describe_'' @ n @ ''.csv''] \<mapsto> csv)\<rparr>)
                 = (Inr (sheets', crs', brs'), s')"
    by (auto simp: io_Inr)
  let ?p = "out @ [''describe_'' @ n @ ''.csv'']"
  let ?s1 = "s\<lparr>files := (files s)(?p \<mapsto> csv)\<rparr>"
  note ih = Cons.IH [OF rest]
  from ih have d: "dirs s' = dirs s"
    by simp
  from ih have "dom (files ?s1) \<subseteq> dom (files s')"
    by blast
  moreover have "dom (files ?s1) = insert ?p (dom (files s))"
    by simp
  ultimately have sub: "dom (files s) \<subseteq> dom (files s')"
    and here: "?p \<in> dom (files s')"
    by blast+
  from ih have others: "\<forall>m \<in> set names. out @ [''describe_'' @ m @ ''.csv''] \<in> dom (files s')"
    by simp
  have rows: "brs' \<noteq> []"
    if "brs \<noteq> [] \<or> (\<exists>m \<in> set (n # names). \<exists>df. parse wb m = Inr df
                          \<and> (\<exists>col \<in> set (df_columns df). qualifies lib (snd col)))"
  proof -
    from that consider "brs \<noteq> [] \<or> (\<exists>col \<in> set (df_columns df). qualifies lib (snd col))"
      | "\<exists>m \<in> set names. \<exists>df. parse wb m = Inr df
                          \<and> (\<exists>col \<in> set (df_columns df). qualifies lib (snd col))"
      using df by auto
    then show ?thesis
    proof cases
      case 1
      with process_columns_rows [OF cols] have "brs1 \<noteq> []"
        by simp
      with ih show ?thesis
        by blast
    next
      case 2
      with ih show ?thesis
        by blast
    qed
  qed
  from d sub here others rows show ?case
    by simp
qed

lemma write_reports_files:
  assumes "write_reports lib excel_path out wb (sheets, crs, brs) s = (Inr u, s')"
  shows "dirs s' = dirs s
    \<and> dom (files s) \<subseteq> dom (files s')
    \<and> out @ [''column_stats.csv''] \<in> dom (files s')
    \<and> out @ [''summary.json''] \<in> dom (files s')
    \<and> out @ [''summary.md''] \<in> dom (files s')
    \<and> out @ [''index.md''] \<in> dom (files s')
    \<and> (brs \<noteq> [] \<longrightarrow> out @ [''benford_summary.csv''] \<in> dom (files s'))"
  using assms
  by (cases "brs = []") (auto simp: write_reports_def Let_def io_Inr)

lemma build_summary_Inr:
  assumes "build_summary lib excel_path out s = (Inr u, s')"
  obtains content wb st s2 where
    "\<forall>q \<in> set (prefixes out). q \<notin> dom (files s)"
    "files s excel_path = Some content"
    "excel_file lib content = Inr wb"
    "sheets_loop lib wb out (sheet_names wb) ([], [], [])
       (s\<lparr>dirs := dirs s \<union> set (prefixes out)\<rparr>) = (Inr st, s2)"
    "write_reports lib excel_path out wb st s2 = (Inr u, s')"
  using assms by (auto simp: build_summary_def io_Inr)

text \<open>
  Claim C7. If the input path does not exist, \<open>main\<close> ends with \<open>SystemExit\<close> carrying the
  message \<open>Input file not found: <path>\<close> (exit status 1) and the filesystem is exactly as
  it was: no directory is created and no file is written. If the input exists and
  \<open>build_summary\<close> returns without an exception, \<open>main\<close> ends with exit status 0 and the
  output directory exists and holds \<open>summary.json\<close>, \<open>summary.md\<close>, \<open>column_stats.csv\<close>,
  \<open>index.md\<close>, one \<open>describe_<sheet>.csv\<close> for each sheet of the workbook, and
  \<open>benford_summary.csv\<close> when some column of some sheet qualifies for the Benford table.
\<close>

theorem main_exit_behaviour:
  "(\<not> exists (input_path a) s \<longrightarrow>
      main lib a s = (SystemExit (''Input file not found: '' @ path_str (input_path a)), s)
      \<and> exit_status (fst (main lib a s)) \<noteq> 0
      \<and> message (fst (main lib a s))
          = Some (''Input file not found: '' @ path_str (input_path a)))
   \<and> (exists (input_path a) s
        \<and> build_summary lib (input_path a) (output_dir a) s = (Inr (), s') \<longrightarrow>
      main lib a s = (Exit0, s')
      \<and> exit_status (fst (main lib a s)) = 0
      \<and> output_dir a \<in> dirs s'
      \<and> (\<forall>name \<in> {''summary.json'', ''summary.md'', ''column_stats.csv'', ''index.md''}.
            output_dir a @ [name] \<in> dom (files s'))
      \<and> (\<exists>content wb. files s (input_path a) = Some content
            \<and> excel_file lib content = Inr wb
            \<and> (\<forall>n \<in> set (sheet_names wb).
                  output_dir a @ [''describe_'' @ n @ ''.csv''] \<in> dom (files s'))
            \<and> ((\<exists>n \<in> set (sheet_names wb). \<exists>df. parse wb n = Inr df
                    \<and> (\<exists>col \<in> set (df_columns df). qualifies lib (snd col)))
                 \<longrightarrow> output_dir a @ [''benford_summary.csv''] \<in> dom (files s'))))"
proof (intro conjI impI)
  assume "\<not> exists (input_path a) s"
  then show "main lib a s = (SystemExit (''Input file not found: '' @ path_str (input_path a)), s)"
    and "exit_status (fst (main lib a s)) \<noteq> 0"
    and "message (fst (main lib a s)) = Some (''Input file not found: '' @ path_str (input_path a))"
    by (simp_all add: main_def)
next
  let ?out = "output_dir a"
  assume run: "exists (input_path a) s
        \<and> build_summary lib (input_path a) (output_dir a) s = (Inr (), s')"
  then show m: "main lib a s = (Exit0, s')"
    by (simp add: main_def)
  then show "exit_status (fst (main lib a s)) = 0"
    by simp
  from run have b: "build_summary lib (input_path a) ?out s = (Inr (), s')"
    by simp
  from b obtain content wb st s2 where
    c: "files s (input_path a) = Some content"
    and wb: "excel_file lib content = Inr wb"
    and loop: "sheets_loop lib wb ?out (sheet_names wb) ([], [], [])
       (s\<lparr>dirs := dirs s \<union> set (prefixes ?out)\<rparr>) = (Inr st, s2)"
    and wr: "write_reports lib (input_path a) ?out wb st s2 = (Inr (), s')"
    by (rule build_summary_Inr)
  obtain sheets crs brs where st: "st = (sheets, crs, brs)"
    by (cases st)
  note l = sheets_loop_files [OF loop [unfolded st]]
  note w = write_reports_files [OF wr [unfolded st]]
  from l w show "?out \<in> dirs s'"
    by simp
  from w show "\<forall>name \<in> {''summary.json'', ''summary.md'', ''column_stats.csv'', ''index.md''}.
            ?out @ [name] \<in> dom (files s')"
    by simp
  have d: "\<forall>n \<in> set (sheet_names wb). ?out @ [''describe_'' @ n @ ''.csv''] \<in> dom (files s')"
    using l w by blast
  have q: "?out @ [''benford_summary.csv''] \<in> dom (files s')"
    if "\<exists>n \<in> set (sheet_names wb). \<exists>df. parse wb n = Inr df
                    \<and> (\<exists>col \<in> set (df_columns df). qualifies lib (snd col))"
    using that l w by blast
  from c wb d q
  show "\<exists>content wb. files s (input_path a) = Some content
            \<and> excel_file lib content = Inr wb
            \<and> (\<forall>n \<in> set (sheet_names wb).
                  ?out @ [''describe_'' @ n @ ''.csv''] \<in> dom (files s'))
            \<and> ((\<exists>n \<in> set (sheet_names wb). \<exists>df. parse wb n = Inr df
                    \<and> (\<exists>col \<in> set (df_columns df). qualifies lib (snd col)))
                 \<longrightarrow> ?out @ [''benford_summary.csv''] \<in> dom (files s'))"
    by blast
qed

text \<open>The run on the small workbook, evaluated.\<close>

lemmas model_eval =
  main_def build_summary_def write_reports_def sheets_loop.simps io_bind_def io_lift_def
  io_return_def mkdir_def write_text_def ExcelFile_def exists_def
  new_sheet_summary_def process_column_def column_row_of_def benford_row_of_eval
  benford_percentages map_of_graph
  benford_summary_def leading_digit_def magnitudes_def first_digit_def lstrip_def int_of_char_def
  numeric_summary_def detect_date_range_def empty_def parsed_of_def notna_sum_def truediv_def
  series_min_def series_max_def Let_def

lemma fixture_run:
  "fst (main fixture_lib fixture_args fixture_fs) = Exit0"
  by (simp add: model_eval fixture_eval del: upt_Suc)

lemma fixture_run_rerun:
  "fst (main fixture_lib fixture_rerun_args fixture_rerun_fs) = Exit0"
  by (simp add: model_eval fixture_eval del: upt_Suc)

lemma fixture_build:
  "fst (build_summary fixture_lib [''je.xlsx''] [''outputs''] fixture_fs) = Inr ()"
  by (simp add: model_eval fixture_eval del: upt_Suc)

lemma fixture_qualifies:
  "qualifies fixture_lib (NumericS Float64 [Some 100, Some (- 250), Some 0, None])"
  by (simp add: qualifies_def fixture_benford)

theorem main_exit_behaviour_witness:
  "\<not> exists [''missing.xlsx''] fixture_fs
   \<and> main fixture_lib \<lparr>input_path = [''missing.xlsx''], output_dir = [''outputs'']\<rparr> fixture_fs
       = (SystemExit ''Input file not found: missing.xlsx'', fixture_fs)
   \<and> exists [''je.xlsx''] fixture_fs
   \<and> fst (build_summary fixture_lib [''je.xlsx''] [''outputs''] fixture_fs) = Inr ()
   \<and> fst (main fixture_lib fixture_args fixture_fs) = Exit0
   \<and> [''outputs'', ''summary.json'']
       \<in> dom (files (snd (build_summary fixture_lib [''je.xlsx''] [''outputs''] fixture_fs)))
   \<and> [''outputs'', ''describe_JE.csv'']
       \<in> dom (files (snd (build_summary fixture_lib [''je.xlsx''] [''outputs''] fixture_fs)))
   \<and> [''outputs'', ''benford_summary.csv'']
       \<in> dom (files (snd (build_summary fixture_lib [''je.xlsx''] [''outputs''] fixture_fs)))"
proof -
  let ?s' = "snd (build_summary fixture_lib [''je.xlsx''] [''outputs''] fixture_fs)"
  have missing: "\<not> exists [''missing.xlsx''] fixture_fs"
    and present: "exists [''je.xlsx''] fixture_fs"
    and content: "files fixture_fs [''je.xlsx''] = Some ''JE''"
    and wb: "excel_file fixture_lib ''JE'' = Inr fixture_workbook"
    by (simp_all add: exists_def fixture_eval)
  have msg: "path_str [''missing.xlsx''] = ''missing.xlsx''"
    by (simp add: path_str_def)
  have run: "build_summary fixture_lib [''je.xlsx''] [''outputs''] fixture_fs = (Inr (), ?s')"
    using fixture_build by (simp add: prod_eq_iff)
  note a = main_exit_behaviour
    [of "\<lparr>input_path = [''missing.xlsx''], output_dir = [''outputs'']\<rparr>" fixture_fs fixture_lib ?s']
  note b = main_exit_behaviour [of fixture_args fixture_fs fixture_lib ?s']
  have args: "input_path fixture_args = [''je.xlsx'']" "output_dir fixture_args = [''outputs'']"
    by (simp_all add: fixture_args_def)
  from a missing msg have 1: "main fixture_lib \<lparr>input_path = [''missing.xlsx''], output_dir = [''outputs'']\<rparr> fixture_fs
       = (SystemExit ''Input file not found: missing.xlsx'', fixture_fs)"
    by simp
  from b present run have 2: "fst (main fixture_lib fixture_args fixture_fs) = Exit0"
    and 3: "[''outputs'', ''summary.json''] \<in> dom (files ?s')"
    by (simp_all add: args)
  from b present run content wb
  have 4: "[''outputs'', ''describe_JE.csv''] \<in> dom (files ?s')"
    and 5: "[''outputs'', ''benford_summary.csv''] \<in> dom (files ?s')"
    by (simp_all add: args fixture_workbook_def fixture_qualifies)
  from missing 1 present fixture_build 2 3 4 5 show ?thesis
    by blast
qed

subsection \<open>The reports are a function of the input\<close>

lemma det_writesI:
  assumes "W \<subseteq> dom outs"
    and "\<And>s s' r. m s = (Inr r, s') \<Longrightarrow> r = x \<and> files s' = files s ++ outs"
  shows "det_writes m W"
  unfolding det_writes_def using assms by blast

lemma det_writes_fail:
  assumes "\<And>s s' r. m s \<noteq> (Inr r, s')"
  shows "det_writes m W"
proof (rule det_writesI [where outs = "\<lambda>p. Some []"])
  show "W \<subseteq> dom (\<lambda>p. Some [])"
    by auto
qed (use assms in blast)

lemma det_writes_mono: "det_writes m W \<Longrightarrow> W' \<subseteq> W \<Longrightarrow> det_writes m W'"
  unfolding det_writes_def by blast

lemma det_writes_return: "det_writes (io_return x) {}"
  by (rule det_writesI [where outs = Map.empty]) (simp_all add: io_Inr)

lemma det_writes_write_text: "det_writes (write_text p c) {p}"
  by (rule det_writesI [where outs = "[p \<mapsto> c]"]) (auto simp: io_Inr)

lemma det_writes_bind:
  assumes "det_writes m W1" and "\<And>x. det_writes (k x) W2"
  shows "det_writes (io_bind m k) (W1 \<union> W2)"
proof -
  from assms(1) obtain x o1 where w1: "W1 \<subseteq> dom o1"
    and m: "\<And>s s' r. m s = (Inr r, s') \<Longrightarrow> r = x \<and> files s' = files s ++ o1"
    unfolding det_writes_def by blast
  from assms(2) [of x] obtain y o2 where w2: "W2 \<subseteq> dom o2"
    and k: "\<And>s s' r. k x s = (Inr r, s') \<Longrightarrow> r = y \<and> files s' = files s ++ o2"
    unfolding det_writes_def by blast
  show ?thesis
  proof (rule det_writesI [where outs = "o1 ++ o2" and x = y])
    show "W1 \<union> W2 \<subseteq> dom (o1 ++ o2)"
      using w1 w2 by auto
  next
    fix s s' r
    assume "io_bind m k s = (Inr r, s')"
    then obtain x' s1 where a: "m s = (Inr x', s1)" and b: "k x' s1 = (Inr r, s')"
      by (auto simp: io_bind_Inr)
    from m [OF a] have x': "x' = x" and f1: "files s1 = files s ++ o1"
      by simp_all
    from k [OF b [unfolded x']] f1 show "r = y \<and> files s' = files s ++ (o1 ++ o2)"
      by simp
  qed
qed

lemma det_writes_lift_bind:
  assumes "\<And>x. r = Inr x \<Longrightarrow> det_writes (k x) W"
  shows "det_writes (io_bind (io_lift r) k) W"
proof (cases r)
  case (Inl e)
  show ?thesis
    by (rule det_writes_fail) (simp add: io_bind_Inr io_lift_Inr Inl)
next
  case (Inr x)
  from assms [OF Inr] obtain y outs where w: "W \<subseteq> dom outs"
    and k: "\<And>s s' r. k x s = (Inr r, s') \<Longrightarrow> r = y \<and> files s' = files s ++ outs"
    unfolding det_writes_def by blast
  show ?thesis
    by (rule det_writesI [OF w, where x = y]) (auto simp: io_bind_Inr io_lift_Inr Inr dest: k)
qed

lemma det_writes_sheets_loop:
  "det_writes (sheets_loop lib wb out names st)
     ((\<lambda>n. out @ [''describe_'' @ n @ ''.csv'']) ` set names)"
proof (induction names arbitrary: st)
  case Nil
  then show ?case
    by (simp add: det_writes_return)
next
  case (Cons n names)
  obtain sheets crs brs where st: "st = (sheets, crs, brs)"
    by (cases st)
  let ?W = "(\<lambda>n. out @ [''describe_'' @ n @ ''.csv'']) ` set names"
  have step: "det_writes
         (io_bind (write_text (out @ [''describe_'' @ n @ ''.csv'']) csv)
            (\<lambda>_. sheets_loop lib wb out names st'))
         ({out @ [''describe_'' @ n @ ''.csv'']} \<union> ?W)" for csv st'
    by (intro det_writes_bind det_writes_write_text Cons.IH)
  show ?case
    unfolding st sheets_loop.simps prod.case
    apply (rule det_writes_lift_bind)
    apply (rule det_writes_lift_bind)
    apply (simp only: split_paired_all prod.case)
    apply (rule det_writes_lift_bind)
    apply (rule det_writes_mono [OF step])
    apply simp
    done
qed

lemma det_writes_write_reports:
  "det_writes (write_reports lib excel_path out wb (sheets, crs, brs))
     ({out @ [''column_stats.csv''], out @ [''summary.json''], out @ [''summary.md''],
       out @ [''index.md'']}
      \<union> (if brs \<noteq> [] then {out @ [''benford_summary.csv'']} else {}))"
proof -
  have b: "det_writes
             (if brs \<noteq> [] then write_text (out @ [''benford_summary.csv'']) c else io_return ())
             (if brs \<noteq> [] then {out @ [''benford_summary.csv'']} else {})" for c
    by (simp add: det_writes_write_text det_writes_return)
  have "det_writes (write_reports lib excel_path out wb (sheets, crs, brs))
     ({out @ [''column_stats.csv'']} \<union> ({out @ [''summary.json'']}
       \<union> ((if brs \<noteq> [] then {out @ [''benford_summary.csv'']} else {})
       \<union> ({out @ [''summary.md'']} \<union> {out @ [''index.md'']}))))"
    unfolding write_reports_def prod.case Let_def
    by (intro det_writes_bind det_writes_write_text b)
  then show ?thesis
    by (rule det_writes_mono) auto
qed

lemma main_Exit0:
  assumes "main lib a s = (Exit0, s')"
  shows "build_summary lib (input_path a) (output_dir a) s = (Inr (), s')"
  using assms by (auto simp: main_def split: if_splits prod.splits sum.splits)

lemma map_add_agree: "p \<in> dom outs \<Longrightarrow> (f ++ outs) p = (g ++ outs) p"
  by (auto simp: map_add_def split: option.splits)

lemma write_reports_name:
  "path_name p1 = path_name p2 \<Longrightarrow>
     write_reports lib p1 out wb st = write_reports lib p2 out wb st"
  by (simp add: write_reports_def)

lemma fixture_run_original:
  "fst (main fixture_lib fixture_args fixture_copy_fs) = Exit0"
  by (simp add: model_eval fixture_eval del: upt_Suc)

lemma fixture_run_copy:
  "fst (main fixture_lib fixture_copy_args fixture_copy_fs) = Exit0"
  by (simp add: model_eval fixture_eval del: upt_Suc)

lemma summary_md_original:
  "\<exists>rest. files (snd (main fixture_lib fixture_args fixture_copy_fs)) [''outputs'', ''summary.md'']
     = Some (''# Journal Entry Summary for `je.xlsx`'' @ rest)"
  by (simp add: model_eval fixture_eval md_lines_def path_name_def del: upt_Suc)

lemma summary_md_copy:
  "\<exists>rest. files (snd (main fixture_lib fixture_copy_args fixture_copy_fs)) [''outputs'', ''summary.md'']
     = Some (''# Journal Entry Summary for `copy.xlsx`'' @ rest)"
  by (simp add: model_eval fixture_eval md_lines_def path_name_def del: upt_Suc)

text \<open>
  Equal workbook contents and an equal output path do not make the reports equal: the file
  name of the input is written into \<open>summary.json\<close> and \<open>summary.md\<close>. A workbook and its
  copy under another name give two different \<open>summary.md\<close>.
\<close>

theorem renamed_copy_counterexample:
  "files fixture_copy_fs (input_path fixture_args)
     = files fixture_copy_fs (input_path fixture_copy_args)
   \<and> output_dir fixture_args = output_dir fixture_copy_args
   \<and> fst (main fixture_lib fixture_args fixture_copy_fs) = Exit0
   \<and> fst (main fixture_lib fixture_copy_args fixture_copy_fs) = Exit0
   \<and> files (snd (main fixture_lib fixture_args fixture_copy_fs)) [''outputs'', ''summary.md'']
       \<noteq> files (snd (main fixture_lib fixture_copy_args fixture_copy_fs))
            [''outputs'', ''summary.md'']"
proof -
  have "files fixture_copy_fs (input_path fixture_args)
          = files fixture_copy_fs (input_path fixture_copy_args)"
    and "output_dir fixture_args = output_dir fixture_copy_args"
    by (simp_all add: fixture_eval)
  moreover have "files (snd (main fixture_lib fixture_args fixture_copy_fs))
                   [''outputs'', ''summary.md'']
       \<noteq> files (snd (main fixture_lib fixture_copy_args fixture_copy_fs))
            [''outputs'', ''summary.md'']"
    using summary_md_original summary_md_copy by auto
  ultimately show ?thesis
    using fixture_run_original fixture_run_copy by (intro conjI)
qed

text \<open>
  Claim C8, amended. Two runs that end with exit status 0, with the same output path, on
  input paths that have the same file name and hold the same contents, write the same
  files with the same contents: there is one map of contents that both runs lay over the
  files they started with. Its domain holds the four fixed reports, one
  \<open>describe_<sheet>.csv\<close> for each sheet, and \<open>benford_summary.csv\<close> when a column
  qualifies; on every path of its domain the two resulting filesystems agree, whatever was
  there before.
\<close>

theorem pipeline_deterministic:
  assumes same: "files s1 (input_path a1) = files s2 (input_path a2)"
    and name: "path_name (input_path a1) = path_name (input_path a2)"
    and out: "output_dir a1 = output_dir a2"
    and r1: "main lib a1 s1 = (Exit0, s1')"
    and r2: "main lib a2 s2 = (Exit0, s2')"
  shows "\<exists>outs. files s1' = files s1 ++ outs \<and> files s2' = files s2 ++ outs
      \<and> (\<forall>p \<in> dom outs. files s1' p = files s2' p)
      \<and> (\<forall>name \<in> {''summary.json'', ''summary.md'', ''column_stats.csv'', ''index.md''}.
            output_dir a1 @ [name] \<in> dom outs)
      \<and> (\<exists>content wb. files s1 (input_path a1) = Some content
            \<and> excel_file lib content = Inr wb
            \<and> (\<forall>n \<in> set (sheet_names wb).
                  output_dir a1 @ [''describe_'' @ n @ ''.csv''] \<in> dom outs)
            \<and> ((\<exists>n \<in> set (sheet_names wb). \<exists>df. parse wb n = Inr df
                    \<and> (\<exists>col \<in> set (df_columns df). qualifies lib (snd col)))
                 \<longrightarrow> output_dir a1 @ [''benford_summary.csv''] \<in> dom outs))"
proof -
  let ?out = "output_dir a1"
  let ?inp = "input_path a1"
  from main_Exit0 [OF r1] obtain content wb st1 t1 where
    c1: "files s1 ?inp = Some content"
    and wb1: "excel_file lib content = Inr wb"
    and loop1: "sheets_loop lib wb ?out (sheet_names wb) ([], [], [])
       (s1\<lparr>dirs := dirs s1 \<union> set (prefixes ?out)\<rparr>) = (Inr st1, t1)"
    and wr1: "write_reports lib ?inp ?out wb st1 t1 = (Inr (), s1')"
    by (rule build_summary_Inr)
  from main_Exit0 [OF r2, folded out] obtain content2 wb2 st2 t2 where
    c2: "files s2 (input_path a2) = Some content2"
    and wb2: "excel_file lib content2 = Inr wb2"
    and loop2: "sheets_loop lib wb2 ?out (sheet_names wb2) ([], [], [])
       (s2\<lparr>dirs := dirs s2 \<union> set (prefixes ?out)\<rparr>) = (Inr st2, t2)"
    and wr2': "write_reports lib (input_path a2) ?out wb2 st2 t2 = (Inr (), s2')"
    by (rule build_summary_Inr)
  from wr2' have wr2: "write_reports lib ?inp ?out wb2 st2 t2 = (Inr (), s2')"
    by (simp only: write_reports_name [OF name])
  from same c1 c2 have "content2 = content"
    by simp
  with wb1 wb2 have wb_eq: "wb2 = wb"
    by simp
  define D where "D = (\<lambda>n. ?out @ [''describe_'' @ n @ ''.csv'']) ` set (sheet_names wb)"
  have "det_writes (sheets_loop lib wb ?out (sheet_names wb) ([], [], [])) D"
    unfolding D_def by (rule det_writes_sheets_loop)
  then obtain x ol where dl: "D \<subseteq> dom ol"
    and l: "\<And>s s' r. sheets_loop lib wb ?out (sheet_names wb) ([], [], []) s = (Inr r, s')
              \<Longrightarrow> r = x \<and> files s' = files s ++ ol"
    unfolding det_writes_def by blast
  from l [OF loop1] have st1: "st1 = x" and ft1: "files t1 = files s1 ++ ol"
    by simp_all
  from l [OF loop2 [unfolded wb_eq]] have st2: "st2 = x" and ft2: "files t2 = files s2 ++ ol"
    by simp_all
  obtain sheets crs brs where x: "x = (sheets, crs, brs)"
    by (cases x)
  define F where "F = {?out @ [''column_stats.csv''], ?out @ [''summary.json''],
                        ?out @ [''summary.md''], ?out @ [''index.md'']}
                       \<union> (if brs \<noteq> [] then {?out @ [''benford_summary.csv'']} else {})"
  have "det_writes (write_reports lib ?inp ?out wb (sheets, crs, brs)) F"
    unfolding F_def by (rule det_writes_write_reports)
  then obtain u ow where dw: "F \<subseteq> dom ow"
    and w: "\<And>s s' r. write_reports lib ?inp ?out wb (sheets, crs, brs) s = (Inr r, s')
              \<Longrightarrow> r = u \<and> files s' = files s ++ ow"
    unfolding det_writes_def by blast
  from w [OF wr1 [unfolded st1 x]] ft1 have f1: "files s1' = files s1 ++ (ol ++ ow)"
    by simp
  from w [OF wr2 [unfolded st2 x wb_eq]] ft2 have f2: "files s2' = files s2 ++ (ol ++ ow)"
    by simp
  have eq: "\<forall>p \<in> dom (ol ++ ow). files s1' p = files s2' p"
  proof
    fix p assume "p \<in> dom (ol ++ ow)"
    then show "files s1' p = files s2' p"
      unfolding f1 f2 by (rule map_add_agree)
  qed
  have fixed: "\<forall>name \<in> {''summary.json'', ''summary.md'', ''column_stats.csv'', ''index.md''}.
            ?out @ [name] \<in> dom (ol ++ ow)"
  proof -
    have "?out @ [''summary.json''] \<in> F" "?out @ [''summary.md''] \<in> F"
      "?out @ [''column_stats.csv''] \<in> F" "?out @ [''index.md''] \<in> F"
      by (simp_all add: F_def)
    with dw have "?out @ [''summary.json''] \<in> dom ow" "?out @ [''summary.md''] \<in> dom ow"
      "?out @ [''column_stats.csv''] \<in> dom ow" "?out @ [''index.md''] \<in> dom ow"
      by (simp_all add: subset_iff del: domIff)
    then show ?thesis
      by simp
  qed
  have desc: "\<forall>n \<in> set (sheet_names wb). ?out @ [''describe_'' @ n @ ''.csv''] \<in> dom (ol ++ ow)"
    using dl by (auto simp: D_def)
  have benf: "?out @ [''benford_summary.csv''] \<in> dom (ol ++ ow)"
    if "\<exists>n \<in> set (sheet_names wb). \<exists>df. parse wb n = Inr df
                    \<and> (\<exists>col \<in> set (df_columns df). qualifies lib (snd col))"
  proof -
    from sheets_loop_files [OF loop1 [unfolded st1 x]] that have "brs \<noteq> []"
      by blast
    then have "?out @ [''benford_summary.csv''] \<in> F"
      by (simp add: F_def)
    with dw have "?out @ [''benford_summary.csv''] \<in> dom ow"
      by (simp add: subset_iff del: domIff)
    then show ?thesis
      by simp
  qed
  have wbpart: "\<exists>content wb. files s1 (input_path a1) = Some content
            \<and> excel_file lib content = Inr wb
            \<and> (\<forall>n \<in> set (sheet_names wb).
                  output_dir a1 @ [''describe_'' @ n @ ''.csv''] \<in> dom (ol ++ ow))
            \<and> ((\<exists>n \<in> set (sheet_names wb). \<exists>df. parse wb n = Inr df
                    \<and> (\<exists>col \<in> set (df_columns df). qualifies lib (snd col)))
                 \<longrightarrow> output_dir a1 @ [''benford_summary.csv''] \<in> dom (ol ++ ow))"
    using c1 wb1 desc benf by (intro exI [of _ content] exI [of _ wb] conjI impI) 
  show ?thesis
    by (rule exI [of _ "ol ++ ow"]) (intro conjI f1 f2 eq fixed wbpart)
qed

theorem pipeline_deterministic_witness:
  "files fixture_fs (input_path fixture_args) = files fixture_rerun_fs (input_path fixture_rerun_args)
   \<and> input_path fixture_args \<noteq> input_path fixture_rerun_args
   \<and> path_name (input_path fixture_args) = path_name (input_path fixture_rerun_args)
   \<and> output_dir fixture_args = output_dir fixture_rerun_args
   \<and> fst (main fixture_lib fixture_args fixture_fs) = Exit0
   \<and> fst (main fixture_lib fixture_rerun_args fixture_rerun_fs) = Exit0
   \<and> files fixture_rerun_fs [''outputs'', ''summary.md''] = Some ''stale''
   \<and> files (snd (main fixture_lib fixture_args fixture_fs)) [''outputs'', ''summary.md'']
       = files (snd (main fixture_lib fixture_rerun_args fixture_rerun_fs))
           [''outputs'', ''summary.md'']"
proof -
  let ?s1' = "snd (main fixture_lib fixture_args fixture_fs)"
  let ?s2' = "snd (main fixture_lib fixture_rerun_args fixture_rerun_fs)"
  have same: "files fixture_fs (input_path fixture_args)
              = files fixture_rerun_fs (input_path fixture_rerun_args)"
    and differ: "input_path fixture_args \<noteq> input_path fixture_rerun_args"
    and name: "path_name (input_path fixture_args) = path_name (input_path fixture_rerun_args)"
    and out: "output_dir fixture_args = output_dir fixture_rerun_args"
    and stale: "files fixture_rerun_fs [''outputs'', ''summary.md''] = Some ''stale''"
    and out1: "output_dir fixture_args = [''outputs'']"
    by (simp_all add: fixture_eval path_name_def)
  have r1: "main fixture_lib fixture_args fixture_fs = (Exit0, ?s1')"
    using fixture_run by (simp add: prod_eq_iff)
  have r2: "main fixture_lib fixture_rerun_args fixture_rerun_fs = (Exit0, ?s2')"
    using fixture_run_rerun by (simp add: prod_eq_iff)
  from pipeline_deterministic [OF same name out r1 r2]
  obtain outs where all: "files ?s1' = files fixture_fs ++ outs
      \<and> files ?s2' = files fixture_rerun_fs ++ outs
      \<and> (\<forall>p \<in> dom outs. files ?s1' p = files ?s2' p)
      \<and> (\<forall>name \<in> {''summary.json'', ''summary.md'', ''column_stats.csv'', ''index.md''}.
            output_dir fixture_args @ [name] \<in> dom outs)
      \<and> (\<exists>content wb. files fixture_fs (input_path fixture_args) = Some content
            \<and> excel_file fixture_lib content = Inr wb
            \<and> (\<forall>n \<in> set (sheet_names wb).
                  output_dir fixture_args @ [''describe_'' @ n @ ''.csv''] \<in> dom outs)
            \<and> ((\<exists>n \<in> set (sheet_names wb). \<exists>df. parse wb n = Inr df
                    \<and> (\<exists>col \<in> set (df_columns df). qualifies fixture_lib (snd col)))
                 \<longrightarrow> output_dir fixture_args @ [''benford_summary.csv''] \<in> dom outs))"
    ..
  note eq = all [THEN conjunct2, THEN conjunct2, THEN conjunct1]
  note fixed = all [THEN conjunct2, THEN conjunct2, THEN conjunct2, THEN conjunct1]
  from fixed have "[''outputs'', ''summary.md''] \<in> dom outs"
    by (simp add: out1 del: domIff)
  with eq have "files ?s1' [''outputs'', ''summary.md''] = files ?s2' [''outputs'', ''summary.md'']"
    by (rule bspec)
  with same differ name out fixture_run fixture_run_rerun stale show ?thesis
    by (intro conjI)
qed

end
